theory Spec2Isabelle
  imports Complex_Main "HOL-Library.Stream" "HOL-Library.Sublist"
begin

section \<open>The simulated annealing solver of solar\_optimizer\<close>

text \<open>
  The development follows \<^verbatim>\<open>simulated_annealing_algo.py\<close>. Python floats are read as
  real numbers: rounding, infinities and NaN are outside the model. The two exceptions that
  float arithmetic raises on the paths of this file are kept as values: a division by zero
  (\<^verbatim>\<open>ZeroDivisionError\<close>) and \<^verbatim>\<open>math.exp\<close> on an argument whose
  exponential exceeds the largest double (\<^verbatim>\<open>OverflowError\<close>).
\<close>

subsection \<open>Data\<close>

text \<open>
  Modelled from the spec: the class \<^verbatim>\<open>ManagedDevice\<close> (module
  \<^verbatim>\<open>managed_device\<close>) is not part of the sources. The solver reads four attributes of
  a device, and a device is the plain data of these four attributes.
\<close>

record managed_device =
  dev_power_max :: real
  dev_name :: string
  dev_is_active :: bool
  dev_is_usable :: bool

text \<open>The dictionary built for each device at lines 103 to 110.\<close>

record equipement =
  power_max :: real
  name :: string
  state :: bool
  is_usable :: bool

type_synonym solution = "equipement list"

text \<open>
  The exceptions of the code, and the two error names of the specification, which no path
  of the code produces.
\<close>

datatype error =
  ZeroDivisionError
  | IndexError
  | OverflowError
  | NoUsableDevice
  | InvalidTariff

text \<open>The fields of \<^verbatim>\<open>SimulatedAnnealingAlgorithm\<close> (lines 18 to 28).\<close>

record 'r algo =
  temperature_initiale :: real
  temperature_minimale :: real
  facteur_refroidissement :: real
  nombre_iterations :: int
  equipements :: 'r
  puissance_totale_eqt_initiale :: real
  cout_achat :: real
  cout_revente :: real
  taxe_revente :: real
  consommation_net :: real
  production_solaire :: real

text \<open>
  The module \<^verbatim>\<open>random\<close>: \<^verbatim>\<open>random.choice\<close> takes the next integer of the source
  and \<^verbatim>\<open>random.random\<close> the next real. Both sequences are arbitrary, so every run of
  the generator is one value of this type.
\<close>

record alea =
  entiers :: "nat stream"
  reels :: "real stream"

subsection \<open>Library functions\<close>

text \<open>
  \<^verbatim>\<open>random.choice(seq)\<close> raises \<^verbatim>\<open>IndexError\<close> on an empty sequence and returns
  \<^verbatim>\<open>seq[k]\<close> with \<^verbatim>\<open>k\<close> below the length otherwise.
\<close>

definition random_choice :: "alea \<Rightarrow> 'a list \<Rightarrow> error + ('a \<times> alea)" where
  "random_choice g seq =
     (if seq = [] then Inl IndexError
      else Inr (seq ! (shd (entiers g) mod length seq), g\<lparr>entiers := stl (entiers g)\<rparr>))"

definition random_random :: "alea \<Rightarrow> real \<times> alea" where
  "random_random g = (shd (reels g), g\<lparr>reels := stl (reels g)\<rparr>)"

text \<open>
  \<^verbatim>\<open>math.exp\<close> raises \<^verbatim>\<open>OverflowError\<close> when the result is not a finite double,
  that is above the argument 709.782712893384.
\<close>

definition math_exp :: "real \<Rightarrow> error + real" where
  "math_exp x = (if x > 709.782712893384 then Inl OverflowError else Inr (exp x))"

text \<open>Float division.\<close>

definition fdiv :: "real \<Rightarrow> real \<Rightarrow> error + real" where
  "fdiv a b = (if b = 0 then Inl ZeroDivisionError else Inr (a / b))"

subsection \<open>The methods on values\<close>

text \<open>\<^verbatim>\<open>consommation_equipements\<close> (lines 214 to 220).\<close>

definition consommation_equipements :: "solution \<Rightarrow> real" where
  "consommation_equipements solution =
     sum_list (map power_max (filter state solution))"

text \<open>
  \<^verbatim>\<open>calculer_objectif\<close> (lines 173 to 207). The two divisions are evaluated in the
  order of the source; the second has the same divisor as the first.
\<close>

definition calculer_objectif :: "'r algo \<Rightarrow> solution \<Rightarrow> error + real" where
  "calculer_objectif self solution =
     (let puissance_totale_eqt = consommation_equipements solution;
          diff_puissance_totale_eqt = puissance_totale_eqt - puissance_totale_eqt_initiale self;
          new_consommation_net = consommation_net self + diff_puissance_totale_eqt;
          new_rejets = (if new_consommation_net \<ge> 0 then 0 else - new_consommation_net);
          new_import = (if new_consommation_net < 0 then 0 else new_consommation_net);
          new_consommation_solaire =
            min (production_solaire self) (production_solaire self - new_rejets);
          new_consommation_totale =
            (new_consommation_net + new_rejets) + new_consommation_solaire;
          cout_revente_impose = cout_revente self * (1.0 - taxe_revente self / 100.0)
      in case fdiv (cout_achat self) (cout_achat self + cout_revente_impose) of
           Inl e \<Rightarrow> Inl e
         | Inr coef_import \<Rightarrow>
             (case fdiv cout_revente_impose (cout_achat self + cout_revente_impose) of
                Inl e \<Rightarrow> Inl e
              | Inr coef_rejets \<Rightarrow>
                  Inr (coef_import * new_import + coef_rejets * new_rejets)))"

text \<open>
  \<^verbatim>\<open>generer_solution_initiale\<close> (lines 209 to 212): stores the initial power in the
  object and returns a deep copy, which on values is the solution itself.
\<close>

definition generer_solution_initiale ::
  "solution algo \<Rightarrow> solution \<Rightarrow> solution \<times> solution algo" where
  "generer_solution_initiale self solution =
     (solution,
      self\<lparr>puissance_totale_eqt_initiale := consommation_equipements solution\<rparr>)"

text \<open>
  \<^verbatim>\<open>permuter_equipement\<close> (lines 222 to 237). \<^verbatim>\<open>usable\<close> holds references to
  dictionaries of \<^verbatim>\<open>voisin\<close>, so the assignment to \<^verbatim>\<open>eqt["state"]\<close> changes
  \<^verbatim>\<open>voisin\<close> at the position of the chosen dictionary: \<^verbatim>\<open>usable\<close> is the list of
  these positions.
\<close>

definition permuter_equipement :: "alea \<Rightarrow> solution \<Rightarrow> error + (solution \<times> alea)" where
  "permuter_equipement g solution =
     (let voisin = solution;
          usable = filter (\<lambda>i. is_usable (voisin ! i)) [0..<length voisin]
      in case random_choice g usable of
           Inl e \<Rightarrow> Inl e
         | Inr (eqt, g') \<Rightarrow>
             Inr (voisin[eqt := (voisin ! eqt)\<lparr>state := \<not> state (voisin ! eqt)\<rparr>], g'))"

text \<open>The variables of the loop of \<^verbatim>\<open>recuit_simule\<close> and the generator.\<close>

record 'r etat =
  solution_actuelle :: 'r
  meilleure_solution :: 'r
  meilleure_objectif :: real
  temperature :: real
  generateur :: alea

text \<open>The body of the loop, lines 121 to 161, up to the test of line 164.\<close>

definition iteration :: "solution algo \<Rightarrow> solution etat \<Rightarrow> error + solution etat" where
  "iteration self s =
     (case calculer_objectif self (solution_actuelle s) of
        Inl e \<Rightarrow> Inl e
      | Inr objectif_actuel \<Rightarrow>
     (case permuter_equipement (generateur s) (solution_actuelle s) of
        Inl e \<Rightarrow> Inl e
      | Inr (voisin, g1) \<Rightarrow>
     (case calculer_objectif self voisin of
        Inl e \<Rightarrow> Inl e
      | Inr objectif_voisin \<Rightarrow>
          if objectif_voisin < objectif_actuel then
            (case calculer_objectif self (meilleure_solution s) of
               Inl e \<Rightarrow> Inl e
             | Inr objectif_meilleur \<Rightarrow>
                 if objectif_voisin < objectif_meilleur then
                   Inr (s\<lparr>solution_actuelle := voisin, meilleure_solution := voisin,
                          meilleure_objectif := objectif_voisin,
                          temperature := temperature s * facteur_refroidissement self,
                          generateur := g1\<rparr>)
                 else
                   Inr (s\<lparr>solution_actuelle := voisin,
                          temperature := temperature s * facteur_refroidissement self,
                          generateur := g1\<rparr>))
          else
            (case fdiv (objectif_actuel - objectif_voisin) (temperature s) of
               Inl e \<Rightarrow> Inl e
             | Inr exposant \<Rightarrow>
            (case math_exp exposant of
               Inl e \<Rightarrow> Inl e
             | Inr probabilite \<Rightarrow>
                 (let (seuil, g2) = random_random g1 in
                  if seuil < probabilite then
                    Inr (s\<lparr>solution_actuelle := voisin,
                           temperature := temperature s * facteur_refroidissement self,
                           generateur := g2\<rparr>)
                  else
                    Inr (s\<lparr>temperature := temperature s * facteur_refroidissement self,
                           generateur := g2\<rparr>)))))))"

text \<open>
  The loop of lines 120 to 165: at most \<open>n\<close> iterations, left after the first one
  whose new temperature is below the minimal one.
\<close>

fun boucle :: "solution algo \<Rightarrow> nat \<Rightarrow> solution etat \<Rightarrow> error + solution etat" where
  "boucle self 0 s = Inr s"
| "boucle self (Suc n) s =
     (case iteration self s of
        Inl e \<Rightarrow> Inl e
      | Inr s' \<Rightarrow>
          if temperature s' < temperature_minimale self then Inr s'
          else boucle self n s')"

text \<open>The assignments of lines 95 to 110.\<close>

definition affecter ::
  "solution algo \<Rightarrow> managed_device list \<Rightarrow> real \<Rightarrow> real \<Rightarrow> real \<Rightarrow> real \<Rightarrow> real \<Rightarrow>
     solution algo" where
  "affecter self devices power_consumption solar_power_production sell_cost buy_cost
       sell_tax_percent =
     self\<lparr>cout_achat := buy_cost,
          cout_revente := sell_cost,
          taxe_revente := sell_tax_percent,
          consommation_net := power_consumption,
          production_solaire := solar_power_production,
          equipements :=
            map (\<lambda>device. \<lparr>power_max = dev_power_max device, name = dev_name device,
                           state = dev_is_active device, is_usable = dev_is_usable device\<rparr>)
              devices\<rparr>"

text \<open>Lines 114 to 118: the object and the variables with which the loop starts.\<close>

definition initialiser ::
  "solution algo \<Rightarrow> alea \<Rightarrow> error + (solution algo \<times> solution etat)" where
  "initialiser self g =
     (let (solution_actuelle0, self') = generer_solution_initiale self (equipements self)
      in case calculer_objectif self' solution_actuelle0 of
           Inl e \<Rightarrow> Inl e
         | Inr objectif \<Rightarrow>
             Inr (self',
                  \<lparr>solution_actuelle = solution_actuelle0,
                   meilleure_solution = solution_actuelle0,
                   meilleure_objectif = objectif,
                   temperature = temperature_initiale self',
                   generateur = g\<rparr>))"

text \<open>
  \<^verbatim>\<open>recuit_simule\<close> (lines 50 to 171). An argument that is \<^verbatim>\<open>None\<close> is
  \<open>None\<close>. \<^verbatim>\<open>range\<close> of a negative number is empty.
\<close>

definition recuit_simule ::
  "solution algo \<Rightarrow> alea \<Rightarrow> managed_device list \<Rightarrow> real option \<Rightarrow> real option \<Rightarrow> real option \<Rightarrow>
     real option \<Rightarrow> real option \<Rightarrow> error + (solution \<times> real \<times> real)" where
  "recuit_simule self g devices power_consumption solar_power_production sell_cost buy_cost
       sell_tax_percent =
     (if length devices \<le> 0 \<or> power_consumption = None \<or> solar_power_production = None
         \<or> sell_cost = None \<or> buy_cost = None \<or> sell_tax_percent = None
      then Inr ([], -1, -1)
      else
        (case initialiser
                (affecter self devices (the power_consumption) (the solar_power_production)
                   (the sell_cost) (the buy_cost) (the sell_tax_percent)) g of
           Inl e \<Rightarrow> Inl e
         | Inr (self', s0) \<Rightarrow>
             (case boucle self' (nat (nombre_iterations self')) s0 of
                Inl e \<Rightarrow> Inl e
              | Inr s \<Rightarrow>
                  Inr (meilleure_solution s, meilleure_objectif s,
                       consommation_equipements (meilleure_solution s)))))"

text \<open>
  The objective as section 4.1 of the specification words it, steps 2 to 8, from the total
  power of the solution, the baseline power and the tariff.
\<close>

definition objective_spec :: "real \<Rightarrow> real \<Rightarrow> real \<Rightarrow> real \<Rightarrow> real \<Rightarrow> real \<Rightarrow> real" where
  "objective_spec total_power baseline_power net_consumption buy_cost sell_cost sell_tax_percent =
     (let delta = total_power - baseline_power;
          new_net = net_consumption + delta;
          grid_export = max 0 (- new_net);
          grid_import = max 0 new_net;
          sell_price_after_tax = sell_cost * (1 - sell_tax_percent / 100);
          import_weight = buy_cost / (buy_cost + sell_price_after_tax);
          export_weight = sell_price_after_tax / (buy_cost + sell_price_after_tax)
      in import_weight * grid_import + export_weight * grid_export)"

text \<open>The divisor of the two divisions of \<^verbatim>\<open>calculer_objectif\<close>.\<close>

definition denominateur :: "'r algo \<Rightarrow> real" where
  "denominateur self = cout_achat self + cout_revente self * (1 - taxe_revente self / 100)"

text \<open>
  The states of the loop in the order the code reaches them: the state in which each
  iteration starts and the state in which the loop is left. An iteration that raises ends
  the sequence. The recursion is the one of \<open>boucle\<close>.
\<close>

fun etats :: "solution algo \<Rightarrow> nat \<Rightarrow> solution etat \<Rightarrow> solution etat list" where
  "etats self 0 s = [s]"
| "etats self (Suc n) s =
     s # (case iteration self s of
            Inl e \<Rightarrow> []
          | Inr s' \<Rightarrow>
              if temperature s' < temperature_minimale self then [s']
              else etats self n s')"

text \<open>
  An example: two devices, the second one not usable, a solver that leaves the loop after
  two iterations, and a generator that always draws 0.
\<close>

definition exemple_algo :: "solution algo" where
  "exemple_algo =
     \<lparr>temperature_initiale = 1, temperature_minimale = 0.3, facteur_refroidissement = 0.5,
      nombre_iterations = 5, equipements = [], puissance_totale_eqt_initiale = 0,
      cout_achat = 15, cout_revente = 10, taxe_revente = 13, consommation_net = 0,
      production_solaire = 0\<rparr>"

definition exemple_devices :: "managed_device list" where
  "exemple_devices =
     [\<lparr>dev_power_max = 1000, dev_name = ''A'', dev_is_active = False, dev_is_usable = True\<rparr>,
      \<lparr>dev_power_max = 500, dev_name = ''B'', dev_is_active = False, dev_is_usable = False\<rparr>]"

definition exemple_alea :: alea where
  "exemple_alea = \<lparr>entiers = sconst 0, reels = sconst 0\<rparr>"

text \<open>The value that \<^verbatim>\<open>calculer_objectif\<close> returns when it returns.\<close>

definition valeur :: "'r algo \<Rightarrow> solution \<Rightarrow> real" where
  "valeur self solution =
     objective_spec (consommation_equipements solution) (puissance_totale_eqt_initiale self)
       (consommation_net self) (cout_achat self) (cout_revente self) (taxe_revente self)"

text \<open>
  A solution has one dictionary per device, with the usability of the device, and a device
  that is not usable has in it the state it has in the input.
\<close>

definition conforme :: "managed_device list \<Rightarrow> solution \<Rightarrow> bool" where
  "conforme devices solution \<longleftrightarrow>
     length solution = length devices
     \<and> (\<forall>i < length devices.
           is_usable (solution ! i) = dev_is_usable (devices ! i)
           \<and> (\<not> dev_is_usable (devices ! i) \<longrightarrow>
                 state (solution ! i) = dev_is_active (devices ! i)))"

text \<open>
  The solver object and the states of the example: at the start of the loop, after the first
  and after the second iteration.
\<close>

definition exemple_contexte :: "solution algo" where
  "exemple_contexte =
     \<lparr>temperature_initiale = 1, temperature_minimale = 0.3, facteur_refroidissement = 0.5,
      nombre_iterations = 5,
      equipements =
        [\<lparr>power_max = 1000, name = ''A'', state = False, is_usable = True\<rparr>,
         \<lparr>power_max = 500, name = ''B'', state = False, is_usable = False\<rparr>],
      puissance_totale_eqt_initiale = 0,
      cout_achat = 15, cout_revente = 10, taxe_revente = 13, consommation_net = - 1200,
      production_solaire = 1200\<rparr>"

definition exemple_etat0 :: "solution etat" where
  "exemple_etat0 =
     \<lparr>solution_actuelle =
        [\<lparr>power_max = 1000, name = ''A'', state = False, is_usable = True\<rparr>,
         \<lparr>power_max = 500, name = ''B'', state = False, is_usable = False\<rparr>],
      meilleure_solution =
        [\<lparr>power_max = 1000, name = ''A'', state = False, is_usable = True\<rparr>,
         \<lparr>power_max = 500, name = ''B'', state = False, is_usable = False\<rparr>],
      meilleure_objectif = 34800 / 79, temperature = 1,
      generateur = exemple_alea\<rparr>"

definition exemple_etat1 :: "solution etat" where
  "exemple_etat1 =
     \<lparr>solution_actuelle =
        [\<lparr>power_max = 1000, name = ''A'', state = True, is_usable = True\<rparr>,
         \<lparr>power_max = 500, name = ''B'', state = False, is_usable = False\<rparr>],
      meilleure_solution =
        [\<lparr>power_max = 1000, name = ''A'', state = True, is_usable = True\<rparr>,
         \<lparr>power_max = 500, name = ''B'', state = False, is_usable = False\<rparr>],
      meilleure_objectif = 5800 / 79, temperature = 1 / 2,
      generateur = exemple_alea\<rparr>"

definition exemple_etat2 :: "solution etat" where
  "exemple_etat2 =
     \<lparr>solution_actuelle =
        [\<lparr>power_max = 1000, name = ''A'', state = False, is_usable = True\<rparr>,
         \<lparr>power_max = 500, name = ''B'', state = False, is_usable = False\<rparr>],
      meilleure_solution =
        [\<lparr>power_max = 1000, name = ''A'', state = True, is_usable = True\<rparr>,
         \<lparr>power_max = 500, name = ''B'', state = False, is_usable = False\<rparr>],
      meilleure_objectif = 5800 / 79, temperature = 1 / 4,
      generateur = exemple_alea\<rparr>"

text \<open>A tariff whose divisor is zero, and an input whose only device is not usable.\<close>

definition tarif_nul :: "solution algo" where
  "tarif_nul = exemple_contexte\<lparr>cout_achat := 0, cout_revente := 10, taxe_revente := 100\<rparr>"

definition exemple_fixe :: "managed_device list" where
  "exemple_fixe =
     [\<lparr>dev_power_max = 500, dev_name = ''B'', dev_is_active = False, dev_is_usable = False\<rparr>]"

subsection \<open>The methods on a store\<close>

text \<open>
  The Python objects of a call live in a store, and a reference is the position of an
  object in it. A new object is put at the end of the store, so that the reference of an
  object that exists is never given again. Numbers, strings and booleans are immutable and
  are kept as values inside the objects.
\<close>

type_synonym ref = nat

datatype objet =
  Appareil managed_device
  | Dictionnaire equipement
  | Liste "ref list"

type_synonym memoire = "objet list"

definition allouer :: "memoire \<Rightarrow> objet \<Rightarrow> ref \<times> memoire" where
  "allouer m ob = (length m, m @ [ob])"

definition appareil :: "memoire \<Rightarrow> ref \<Rightarrow> managed_device" where
  "appareil m a = (case m ! a of Appareil d \<Rightarrow> d)"

definition dictionnaire :: "memoire \<Rightarrow> ref \<Rightarrow> equipement" where
  "dictionnaire m a = (case m ! a of Dictionnaire d \<Rightarrow> d)"

definition liste :: "memoire \<Rightarrow> ref \<Rightarrow> ref list" where
  "liste m a = (case m ! a of Liste as \<Rightarrow> as)"

text \<open>The list of dictionaries that a reference to a solution stands for.\<close>

definition lire :: "memoire \<Rightarrow> ref \<Rightarrow> solution" where
  "lire m l = map (dictionnaire m) (liste m l)"

text \<open>\<^verbatim>\<open>l.append(a)\<close> changes the list object in place.\<close>

definition ajouter :: "memoire \<Rightarrow> ref \<Rightarrow> ref \<Rightarrow> memoire" where
  "ajouter m l a = m[l := Liste (liste m l @ [a])]"

text \<open>
  The loop of lines 102 to 110: one new dictionary per device, appended to the list
  \<^verbatim>\<open>self._equipements\<close>.
\<close>

fun construire :: "memoire \<Rightarrow> ref \<Rightarrow> ref list \<Rightarrow> memoire" where
  "construire m l [] = m"
| "construire m l (device # devices) =
     (let (eqt, m1) =
            allouer m
              (Dictionnaire
                 \<lparr>power_max = dev_power_max (appareil m device),
                  name = dev_name (appareil m device),
                  state = dev_is_active (appareil m device),
                  is_usable = dev_is_usable (appareil m device)\<rparr>)
      in construire (ajouter m1 l eqt) l devices)"

text \<open>The assignments of lines 95 to 110; \<^verbatim>\<open>devices\<close> refers to the list of the caller.\<close>

definition affecter_mem ::
  "ref algo \<Rightarrow> memoire \<Rightarrow> ref \<Rightarrow> real \<Rightarrow> real \<Rightarrow> real \<Rightarrow> real \<Rightarrow> real \<Rightarrow> ref algo \<times> memoire" where
  "affecter_mem self m devices power_consumption solar_power_production sell_cost buy_cost
       sell_tax_percent =
     (let (l, m1) = allouer m (Liste [])
      in (self\<lparr>cout_achat := buy_cost,
               cout_revente := sell_cost,
               taxe_revente := sell_tax_percent,
               consommation_net := power_consumption,
               production_solaire := solar_power_production,
               equipements := l\<rparr>,
          construire m1 l (liste m devices)))"

text \<open>
  \<^verbatim>\<open>copy.deepcopy\<close> of a list of dictionaries: a new list, registered in the memo
  under the copied list, then for each element the copy that the memo has for it, or a new
  dictionary that is registered in the memo. The values of a dictionary are immutable and
  are returned as they are, so the copy of a dictionary is a new object with the same
  content.
\<close>

fun copier :: "memoire \<Rightarrow> (ref \<times> ref) list \<Rightarrow> ref \<Rightarrow> ref list \<Rightarrow> memoire" where
  "copier m memo y [] = m"
| "copier m memo y (a # as) =
     (case map_of memo a of
        Some b \<Rightarrow> copier (ajouter m y b) memo y as
      | None \<Rightarrow>
          (let (b, m1) = allouer m (m ! a)
           in copier (ajouter m1 y b) ((a, b) # memo) y as))"

definition deepcopy :: "memoire \<Rightarrow> ref \<Rightarrow> ref \<times> memoire" where
  "deepcopy m x =
     (let (y, m1) = allouer m (Liste [])
      in (y, copier m1 [(x, y)] y (liste m x)))"

text \<open>\<^verbatim>\<open>generer_solution_initiale\<close> (lines 209 to 212).\<close>

definition generer_solution_initiale_mem ::
  "ref algo \<Rightarrow> memoire \<Rightarrow> ref \<Rightarrow> (ref \<times> ref algo) \<times> memoire" where
  "generer_solution_initiale_mem self m solution =
     (let self' = self\<lparr>puissance_totale_eqt_initiale :=
                        consommation_equipements (lire m solution)\<rparr>;
          (copie, m1) = deepcopy m solution
      in ((copie, self'), m1))"

text \<open>
  \<^verbatim>\<open>permuter_equipement\<close> (lines 222 to 237): \<^verbatim>\<open>usable\<close> is a list of references
  to dictionaries of the copy, and the chosen dictionary is changed in place.
\<close>

definition permuter_equipement_mem ::
  "alea \<Rightarrow> memoire \<Rightarrow> ref \<Rightarrow> (error + (ref \<times> alea)) \<times> memoire" where
  "permuter_equipement_mem g m solution =
     (let (voisin, m1) = deepcopy m solution;
          usable = filter (\<lambda>eqt. is_usable (dictionnaire m1 eqt)) (liste m1 voisin)
      in case random_choice g usable of
           Inl e \<Rightarrow> (Inl e, m1)
         | Inr (eqt, g') \<Rightarrow>
             (Inr (voisin, g'),
              m1[eqt := Dictionnaire
                          ((dictionnaire m1 eqt)\<lparr>state := \<not> state (dictionnaire m1 eqt)\<rparr>)]))"

text \<open>The body of the loop, lines 121 to 161.\<close>

definition iteration_mem :: "ref algo \<Rightarrow> memoire \<Rightarrow> ref etat \<Rightarrow> (error + ref etat) \<times> memoire" where
  "iteration_mem self m s =
     (case calculer_objectif self (lire m (solution_actuelle s)) of
        Inl e \<Rightarrow> (Inl e, m)
      | Inr objectif_actuel \<Rightarrow>
     (case permuter_equipement_mem (generateur s) m (solution_actuelle s) of
        (Inl e, m1) \<Rightarrow> (Inl e, m1)
      | (Inr (voisin, g1), m1) \<Rightarrow>
     (case calculer_objectif self (lire m1 voisin) of
        Inl e \<Rightarrow> (Inl e, m1)
      | Inr objectif_voisin \<Rightarrow>
          if objectif_voisin < objectif_actuel then
            (case calculer_objectif self (lire m1 (meilleure_solution s)) of
               Inl e \<Rightarrow> (Inl e, m1)
             | Inr objectif_meilleur \<Rightarrow>
                 if objectif_voisin < objectif_meilleur then
                   (Inr (s\<lparr>solution_actuelle := voisin, meilleure_solution := voisin,
                           meilleure_objectif := objectif_voisin,
                           temperature := temperature s * facteur_refroidissement self,
                           generateur := g1\<rparr>), m1)
                 else
                   (Inr (s\<lparr>solution_actuelle := voisin,
                           temperature := temperature s * facteur_refroidissement self,
                           generateur := g1\<rparr>), m1))
          else
            (case fdiv (objectif_actuel - objectif_voisin) (temperature s) of
               Inl e \<Rightarrow> (Inl e, m1)
             | Inr exposant \<Rightarrow>
            (case math_exp exposant of
               Inl e \<Rightarrow> (Inl e, m1)
             | Inr probabilite \<Rightarrow>
                 (let (seuil, g2) = random_random g1 in
                  if seuil < probabilite then
                    (Inr (s\<lparr>solution_actuelle := voisin,
                            temperature := temperature s * facteur_refroidissement self,
                            generateur := g2\<rparr>), m1)
                  else
                    (Inr (s\<lparr>temperature := temperature s * facteur_refroidissement self,
                            generateur := g2\<rparr>), m1)))))))"

text \<open>The loop of lines 120 to 165.\<close>

fun boucle_mem :: "ref algo \<Rightarrow> nat \<Rightarrow> memoire \<Rightarrow> ref etat \<Rightarrow> (error + ref etat) \<times> memoire" where
  "boucle_mem self 0 m s = (Inr s, m)"
| "boucle_mem self (Suc n) m s =
     (case iteration_mem self m s of
        (Inl e, m1) \<Rightarrow> (Inl e, m1)
      | (Inr s', m1) \<Rightarrow>
          if temperature s' < temperature_minimale self then (Inr s', m1)
          else boucle_mem self n m1 s')"

text \<open>Lines 114 to 118; line 116 gives the best solution the reference of the current one.\<close>

definition initialiser_mem ::
  "ref algo \<Rightarrow> memoire \<Rightarrow> alea \<Rightarrow> (error + (ref algo \<times> ref etat)) \<times> memoire" where
  "initialiser_mem self m g =
     (let ((solution_actuelle0, self'), m1) =
            generer_solution_initiale_mem self m (equipements self)
      in case calculer_objectif self' (lire m1 solution_actuelle0) of
           Inl e \<Rightarrow> (Inl e, m1)
         | Inr objectif \<Rightarrow>
             (Inr (self',
                   \<lparr>solution_actuelle = solution_actuelle0,
                    meilleure_solution = solution_actuelle0,
                    meilleure_objectif = objectif,
                    temperature = temperature_initiale self',
                    generateur = g\<rparr>), m1))"

text \<open>
  \<^verbatim>\<open>recuit_simule\<close> (lines 50 to 171) on the store: \<^verbatim>\<open>devices\<close> refers to the
  list of the caller, whose elements refer to the devices. The result holds a reference to
  the returned list; the empty list of the sentinel is a new object.
\<close>

definition recuit_simule_mem ::
  "ref algo \<Rightarrow> alea \<Rightarrow> memoire \<Rightarrow> ref \<Rightarrow> real option \<Rightarrow> real option \<Rightarrow> real option \<Rightarrow>
     real option \<Rightarrow> real option \<Rightarrow> (error + (ref \<times> real \<times> real)) \<times> memoire" where
  "recuit_simule_mem self g m devices power_consumption solar_power_production sell_cost
       buy_cost sell_tax_percent =
     (if length (liste m devices) \<le> 0 \<or> power_consumption = None
         \<or> solar_power_production = None \<or> sell_cost = None \<or> buy_cost = None
         \<or> sell_tax_percent = None
      then (let (vide, m1) = allouer m (Liste []) in (Inr (vide, -1, -1), m1))
      else
        (let (self1, m1) =
               affecter_mem self m devices (the power_consumption)
                 (the solar_power_production) (the sell_cost) (the buy_cost)
                 (the sell_tax_percent)
         in case initialiser_mem self1 m1 g of
              (Inl e, m2) \<Rightarrow> (Inl e, m2)
            | (Inr (self', s0), m2) \<Rightarrow>
                (case boucle_mem self' (nat (nombre_iterations self')) m2 s0 of
                   (Inl e, m3) \<Rightarrow> (Inl e, m3)
                 | (Inr s, m3) \<Rightarrow>
                     (Inr (meilleure_solution s, meilleure_objectif s,
                           consommation_equipements (lire m3 (meilleure_solution s))), m3))))"

text \<open>
  The example on a store: the two devices, the list of the caller at reference 2, and a
  solver whose field \<^verbatim>\<open>_equipements\<close> is not yet assigned.
\<close>

definition exemple_memoire :: memoire where
  "exemple_memoire =
     [Appareil \<lparr>dev_power_max = 1000, dev_name = ''A'', dev_is_active = False,
                dev_is_usable = True\<rparr>,
      Appareil \<lparr>dev_power_max = 500, dev_name = ''B'', dev_is_active = False,
                dev_is_usable = False\<rparr>,
      Liste [0, 1]]"

definition exemple_solveur :: "ref algo" where
  "exemple_solveur =
     \<lparr>temperature_initiale = 1, temperature_minimale = 0.3, facteur_refroidissement = 0.5,
      nombre_iterations = 5, equipements = 0, puissance_totale_eqt_initiale = 0,
      cout_achat = 15, cout_revente = 10, taxe_revente = 13, consommation_net = 0,
      production_solaire = 0\<rparr>"

text \<open>
  A reference to a solution as the solver builds them: a list object whose elements are
  distinct dictionaries of the store.
\<close>

definition solution_ok :: "memoire \<Rightarrow> ref \<Rightarrow> bool" where
  "solution_ok m l \<longleftrightarrow>
     l < length m
     \<and> (\<exists>as. m ! l = Liste as \<and> distinct as
              \<and> (\<forall>a \<in> set as. a < length m \<and> (\<exists>d. m ! a = Dictionnaire d)))"

text \<open>
  Two solutions on a store: the dictionaries of the example at reference 2, and a solution
  whose only dictionary is not usable at reference 1.
\<close>

definition exemple_memoire_solution :: memoire where
  "exemple_memoire_solution =
     [Dictionnaire \<lparr>power_max = 1000, name = ''A'', state = False, is_usable = True\<rparr>,
      Dictionnaire \<lparr>power_max = 500, name = ''B'', state = False, is_usable = False\<rparr>,
      Liste [0, 1]]"

definition exemple_memoire_fixe :: memoire where
  "exemple_memoire_fixe =
     [Dictionnaire \<lparr>power_max = 500, name = ''B'', state = False, is_usable = False\<rparr>,
      Liste [0]]"

text \<open>The solver object and the variables of the loop, with the solutions read.\<close>

definition valeur_algo :: "memoire \<Rightarrow> ref algo \<Rightarrow> solution algo" where
  "valeur_algo m self =
     \<lparr>temperature_initiale = temperature_initiale self,
      temperature_minimale = temperature_minimale self,
      facteur_refroidissement = facteur_refroidissement self,
      nombre_iterations = nombre_iterations self,
      equipements = lire m (equipements self),
      puissance_totale_eqt_initiale = puissance_totale_eqt_initiale self,
      cout_achat = cout_achat self,
      cout_revente = cout_revente self,
      taxe_revente = taxe_revente self,
      consommation_net = consommation_net self,
      production_solaire = production_solaire self\<rparr>"

definition valeur_etat :: "memoire \<Rightarrow> ref etat \<Rightarrow> solution etat" where
  "valeur_etat m s =
     \<lparr>solution_actuelle = lire m (solution_actuelle s),
      meilleure_solution = lire m (meilleure_solution s),
      meilleure_objectif = meilleure_objectif s,
      temperature = temperature s,
      generateur = generateur s\<rparr>"

text \<open>
  The list of the caller: a list object whose elements are devices of the store.
\<close>

definition devices_ok :: "memoire \<Rightarrow> ref \<Rightarrow> bool" where
  "devices_ok m devices \<longleftrightarrow>
     devices < length m
     \<and> (\<exists>ds. m ! devices = Liste ds
              \<and> (\<forall>d \<in> set ds. d < length m \<and> (\<exists>x. m ! d = Appareil x)))"

lemma calculer_objectif_zero:
  "denominateur self = 0 \<Longrightarrow> calculer_objectif self solution = Inl ZeroDivisionError"
  by (simp add: calculer_objectif_def denominateur_def fdiv_def Let_def)

lemma calculer_objectif_val:
  "denominateur self \<noteq> 0 \<Longrightarrow>
   calculer_objectif self solution =
     Inr (objective_spec (consommation_equipements solution) (puissance_totale_eqt_initiale self)
            (consommation_net self) (cout_achat self) (cout_revente self) (taxe_revente self))"
  by (auto simp add: calculer_objectif_def denominateur_def fdiv_def Let_def objective_spec_def max_def)

lemma objective_spec_nonneg:
  assumes "0 < b" "0 \<le> s" "t \<le> 100"
  shows "0 \<le> objective_spec p p0 n b s t"
proof -
  have st: "0 \<le> s * (1 - t / 100)" using assms by simp
  then have d: "0 < b + s * (1 - t / 100)" using assms by linarith
  show ?thesis
    unfolding objective_spec_def Let_def
    by (intro add_nonneg_nonneg mult_nonneg_nonneg divide_nonneg_pos)
       (use assms st d in simp_all)
qed

lemma calculer_objectif_Inr:
  "calculer_objectif self solution = Inr v \<Longrightarrow> denominateur self \<noteq> 0"
  using calculer_objectif_zero [of self solution] by auto

lemma permuter_equipement_Inr:
  assumes "permuter_equipement g solution = Inr (v, g')"
  shows "\<exists>k. k < length solution \<and> is_usable (solution ! k)
           \<and> v = solution[k := (solution ! k)\<lparr>state := \<not> state (solution ! k)\<rparr>]
           \<and> g' = g\<lparr>entiers := stl (entiers g)\<rparr>"
proof -
  define usable where "usable = filter (\<lambda>i. is_usable (solution ! i)) [0..<length solution]"
  define k where "k = usable ! (shd (entiers g) mod length usable)"
  from assms have ne: "usable \<noteq> []"
    by (auto simp: permuter_equipement_def random_choice_def Let_def usable_def
             split: if_splits)
  then have "k \<in> set usable"
    unfolding k_def by (intro nth_mem) simp
  then have "k < length solution" "is_usable (solution ! k)"
    by (auto simp: usable_def)
  moreover from assms ne
  have "v = solution[k := (solution ! k)\<lparr>state := \<not> state (solution ! k)\<rparr>]"
       "g' = g\<lparr>entiers := stl (entiers g)\<rparr>"
    by (auto simp: permuter_equipement_def random_choice_def Let_def usable_def k_def
             split: if_splits)
  ultimately show ?thesis by blast
qed

lemma permuter_equipement_differs:
  assumes "permuter_equipement g solution = Inr (v, g')"
  shows "v \<noteq> solution"
proof -
  from permuter_equipement_Inr [OF assms] obtain k where
    k: "k < length solution"
       "v = solution[k := (solution ! k)\<lparr>state := \<not> state (solution ! k)\<rparr>]"
    by blast
  then have "state (v ! k) = (\<not> state (solution ! k))" by simp
  then show ?thesis by auto
qed

lemma permuter_equipement_usable:
  assumes "k < length solution" "is_usable (solution ! k)"
  shows "\<exists>v g'. permuter_equipement g solution = Inr (v, g')"
proof -
  have "k \<in> set (filter (\<lambda>i. is_usable (solution ! i)) [0..<length solution])"
    using assms by simp
  then have "filter (\<lambda>i. is_usable (solution ! i)) [0..<length solution] \<noteq> []"
    by (metis empty_iff empty_set)
  then show ?thesis
    by (simp add: permuter_equipement_def random_choice_def Let_def)
qed

lemma permuter_equipement_none:
  assumes "\<forall>k < length solution. \<not> is_usable (solution ! k)"
  shows "permuter_equipement g solution = Inl IndexError"
proof -
  have "filter (\<lambda>i. is_usable (solution ! i)) [0..<length solution] = []"
    using assms by (simp add: filter_empty_conv)
  then show ?thesis
    by (simp add: permuter_equipement_def random_choice_def Let_def)
qed

text \<open>What one iteration that returns has done.\<close>

lemma iteration_Inr:
  assumes "iteration self s = Inr s'"
  obtains oa v g1 ov om where
    "calculer_objectif self (solution_actuelle s) = Inr oa"
    "permuter_equipement (generateur s) (solution_actuelle s) = Inr (v, g1)"
    "calculer_objectif self v = Inr ov"
    "calculer_objectif self (meilleure_solution s) = Inr om"
    "temperature s' = temperature s * facteur_refroidissement self"
    "ov < oa \<Longrightarrow> solution_actuelle s' = v"
    "ov < oa \<Longrightarrow> ov < om \<Longrightarrow> meilleure_solution s' = v \<and> meilleure_objectif s' = ov"
    "\<not> (ov < oa \<and> ov < om) \<Longrightarrow>
       meilleure_solution s' = meilleure_solution s \<and> meilleure_objectif s' = meilleure_objectif s"
    "\<not> ov < oa \<Longrightarrow> temperature s \<noteq> 0"
    "\<not> ov < oa \<Longrightarrow>
       solution_actuelle s' =
         (if shd (reels g1) < exp ((oa - ov) / temperature s) then v else solution_actuelle s)"
proof -
  from assms obtain oa where oa: "calculer_objectif self (solution_actuelle s) = Inr oa"
    by (auto simp: iteration_def split: sum.splits)
  from assms oa obtain v g1 where
    v: "permuter_equipement (generateur s) (solution_actuelle s) = Inr (v, g1)"
    by (auto simp: iteration_def split: sum.splits)
  from assms oa v obtain ov where ov: "calculer_objectif self v = Inr ov"
    by (auto simp: iteration_def split: sum.splits)
  have "denominateur self \<noteq> 0" using oa by (rule calculer_objectif_Inr)
  then obtain om where om: "calculer_objectif self (meilleure_solution s) = Inr om"
    by (simp add: calculer_objectif_val)
  show ?thesis
  proof (rule that [OF oa v ov om])
    show "temperature s' = temperature s * facteur_refroidissement self"
      using assms oa v ov om
      by (auto simp: iteration_def Let_def random_random_def
               split: sum.splits if_splits prod.splits)
    show "ov < oa \<Longrightarrow> solution_actuelle s' = v"
      using assms oa v ov om
      by (auto simp: iteration_def Let_def split: sum.splits if_splits)
    show "ov < oa \<Longrightarrow> ov < om \<Longrightarrow> meilleure_solution s' = v \<and> meilleure_objectif s' = ov"
      using assms oa v ov om
      by (auto simp: iteration_def Let_def split: sum.splits if_splits)
    show "\<not> (ov < oa \<and> ov < om) \<Longrightarrow>
       meilleure_solution s' = meilleure_solution s \<and> meilleure_objectif s' = meilleure_objectif s"
      using assms oa v ov om
      by (auto simp: iteration_def Let_def random_random_def
               split: sum.splits if_splits prod.splits)
    show "\<not> ov < oa \<Longrightarrow> temperature s \<noteq> 0"
      using assms oa v ov om
      by (auto simp: iteration_def Let_def fdiv_def split: sum.splits if_splits)
    show "\<not> ov < oa \<Longrightarrow>
       solution_actuelle s' =
         (if shd (reels g1) < exp ((oa - ov) / temperature s) then v else solution_actuelle s)"
      using assms oa v ov om
      by (auto simp: iteration_def Let_def fdiv_def math_exp_def random_random_def
               split: sum.splits if_splits prod.splits)
  qed
qed

subsection \<open>The sequence of states of the loop\<close>

lemma etats_hd: "etats self n s ! 0 = s"
  by (cases n) simp_all

lemma etats_length: "0 < length (etats self n s) \<and> length (etats self n s) \<le> Suc n"
  by (induction n arbitrary: s) (auto split: sum.splits)

lemma etats_step:
  "Suc i < length (etats self n s) \<Longrightarrow>
     iteration self (etats self n s ! i) = Inr (etats self n s ! Suc i)"
proof (induction n arbitrary: s i)
  case 0
  then show ?case by simp
next
  case (Suc n)
  show ?case
  proof (cases "iteration self s")
    case (Inl e)
    with Suc.prems show ?thesis by simp
  next
    case (Inr s')
    show ?thesis
    proof (cases "temperature s' < temperature_minimale self")
      case True
      with Inr Suc.prems show ?thesis by simp
    next
      case False
      show ?thesis
      proof (cases i)
        case 0
        with Inr False show ?thesis by (simp add: etats_hd)
      next
        case (Suc j)
        with Inr False Suc.prems have "Suc j < length (etats self n s')" by simp
        from Suc.IH [OF this] Inr False Suc show ?thesis by simp
      qed
    qed
  qed
qed

lemma etats_stop:
  "0 < i \<Longrightarrow> Suc i < length (etats self n s) \<Longrightarrow>
     \<not> temperature (etats self n s ! i) < temperature_minimale self"
proof (induction n arbitrary: s i)
  case 0
  then show ?case by simp
next
  case (Suc n)
  show ?case
  proof (cases "iteration self s")
    case (Inl e)
    with Suc.prems show ?thesis by simp
  next
    case (Inr s')
    show ?thesis
    proof (cases "temperature s' < temperature_minimale self")
      case True
      with Inr Suc.prems show ?thesis by simp
    next
      case False
      from Suc.prems obtain j where j: "i = Suc j" by (cases i) auto
      show ?thesis
      proof (cases j)
        case 0
        with Inr False j show ?thesis by (simp add: etats_hd)
      next
        case (Suc k)
        with Inr False j Suc.prems have "0 < j" "Suc j < length (etats self n s')" by simp_all
        from Suc.IH [OF this] Inr False j show ?thesis by simp
      qed
    qed
  qed
qed

lemma boucle_etats:
  "boucle self n s = Inr sf \<Longrightarrow>
     sf = last (etats self n s)
     \<and> (length (etats self n s) < Suc n \<longrightarrow> temperature sf < temperature_minimale self)"
proof (induction n arbitrary: s)
  case 0
  then show ?case by simp
next
  case (Suc n)
  from Suc.prems obtain s' where s': "iteration self s = Inr s'"
    by (auto split: sum.splits)
  show ?case
  proof (cases "temperature s' < temperature_minimale self")
    case True
    with s' Suc.prems show ?thesis by auto
  next
    case False
    with s' Suc.prems have "boucle self n s' = Inr sf" by simp
    from Suc.IH [OF this] s' False etats_length [of self n s'] show ?thesis by auto
  qed
qed

lemma etats_temperature:
  "i < length (etats self n s) \<Longrightarrow>
     temperature (etats self n s ! i) = temperature s * facteur_refroidissement self ^ i"
proof (induction i)
  case 0
  then show ?case by (simp add: etats_hd)
next
  case (Suc i)
  then have "iteration self (etats self n s ! i) = Inr (etats self n s ! Suc i)"
    by (intro etats_step)
  then have "temperature (etats self n s ! Suc i)
      = temperature (etats self n s ! i) * facteur_refroidissement self"
    by (rule iteration_Inr)
  with Suc show ?case by simp
qed

lemma initialiser_Inr:
  assumes "initialiser (affecter self devices pc sp sc bc tax) g = Inr (self', s0)"
  shows "temperature s0 = temperature_initiale self"
    and "temperature_minimale self' = temperature_minimale self"
    and "facteur_refroidissement self' = facteur_refroidissement self"
    and "nombre_iterations self' = nombre_iterations self"
    and "cout_achat self' = bc" and "cout_revente self' = sc" and "taxe_revente self' = tax"
    and "consommation_net self' = pc" and "production_solaire self' = sp"
    and "generateur s0 = g"
    and "solution_actuelle s0 =
           map (\<lambda>device. \<lparr>power_max = dev_power_max device, name = dev_name device,
                          state = dev_is_active device, is_usable = dev_is_usable device\<rparr>)
             devices"
    and "meilleure_solution s0 = solution_actuelle s0"
    and "puissance_totale_eqt_initiale self' = consommation_equipements (solution_actuelle s0)"
    and "calculer_objectif self' (solution_actuelle s0) = Inr (meilleure_objectif s0)"
    and "equipements self' = solution_actuelle s0"
  using assms
  by (auto simp: initialiser_def affecter_def generer_solution_initiale_def Let_def
           split: sum.splits)

lemma calculer_objectif_valeur:
  "denominateur self \<noteq> 0 \<Longrightarrow> calculer_objectif self solution = Inr (valeur self solution)"
  by (simp add: calculer_objectif_val valeur_def)

lemma calculer_objectif_eq:
  "calculer_objectif self solution = Inr v \<Longrightarrow> v = valeur self solution"
  using calculer_objectif_Inr [of self solution v] calculer_objectif_valeur [of self solution]
  by simp

subsection \<open>The best solution is a running minimum\<close>

lemma iteration_meilleur:
  assumes it: "iteration self s = Inr s'"
    and b: "meilleure_objectif s = valeur self (meilleure_solution s)"
    and c: "meilleure_objectif s \<le> valeur self (solution_actuelle s)"
    and p: "permuter_equipement (generateur s) (solution_actuelle s) = Inr (v, g1)"
  shows "meilleure_objectif s' = valeur self (meilleure_solution s')"
    and "meilleure_objectif s' \<le> valeur self (solution_actuelle s')"
    and "meilleure_objectif s' \<le> meilleure_objectif s"
    and "meilleure_objectif s' \<le> valeur self v"
proof -
  from it obtain oa w g2 ov om where h:
    "calculer_objectif self (solution_actuelle s) = Inr oa"
    "permuter_equipement (generateur s) (solution_actuelle s) = Inr (w, g2)"
    "calculer_objectif self w = Inr ov"
    "calculer_objectif self (meilleure_solution s) = Inr om"
    "ov < oa \<Longrightarrow> solution_actuelle s' = w"
    "ov < oa \<Longrightarrow> ov < om \<Longrightarrow> meilleure_solution s' = w \<and> meilleure_objectif s' = ov"
    "\<not> (ov < oa \<and> ov < om) \<Longrightarrow>
       meilleure_solution s' = meilleure_solution s \<and> meilleure_objectif s' = meilleure_objectif s"
    "\<not> ov < oa \<Longrightarrow>
       solution_actuelle s' =
         (if shd (reels g2) < exp ((oa - ov) / temperature s) then w else solution_actuelle s)"
    by (rule iteration_Inr) blast
  from h(2) p have w: "w = v" by simp
  have oa: "oa = valeur self (solution_actuelle s)" using h(1) by (rule calculer_objectif_eq)
  have ov: "ov = valeur self v" using h(3) w by (simp add: calculer_objectif_eq)
  have om: "om = meilleure_objectif s" using h(4) b by (simp add: calculer_objectif_eq)
  show "meilleure_objectif s' = valeur self (meilleure_solution s')"
    using h(6,7) w ov om b by (cases "ov < oa \<and> ov < om") auto
  show "meilleure_objectif s' \<le> meilleure_objectif s"
    using h(6,7) om by (cases "ov < oa \<and> ov < om") auto
  show "meilleure_objectif s' \<le> valeur self v"
    using h(6,7) om oa ov c by (cases "ov < oa \<and> ov < om") auto
  show "meilleure_objectif s' \<le> valeur self (solution_actuelle s')"
  proof (cases "ov < oa")
    case True
    then have "solution_actuelle s' = v" using h(5) w by simp
    moreover have "meilleure_objectif s' \<le> ov"
      using h(6,7) True om by (cases "ov < om") auto
    ultimately show ?thesis using ov by simp
  next
    case False
    then have m: "meilleure_objectif s' = meilleure_objectif s" using h(7) by simp
    from False h(8) w have "solution_actuelle s' = v \<or> solution_actuelle s' = solution_actuelle s"
      by (auto split: if_splits)
    then show ?thesis using m c False oa ov by auto
  qed
qed

lemma etats_meilleur:
  assumes b: "meilleure_objectif s = valeur self (meilleure_solution s)"
    and c: "meilleure_objectif s \<le> valeur self (solution_actuelle s)"
  shows "i < length (etats self n s) \<Longrightarrow>
     meilleure_objectif (etats self n s ! i) = valeur self (meilleure_solution (etats self n s ! i))
     \<and> meilleure_objectif (etats self n s ! i) \<le> valeur self (solution_actuelle (etats self n s ! i))
     \<and> meilleure_objectif (etats self n s ! i) \<le> meilleure_objectif s"
proof (induction i)
  case 0
  with b c show ?case by (simp add: etats_hd)
next
  case (Suc i)
  let ?t = "etats self n s"
  from Suc.prems have it: "iteration self (?t ! i) = Inr (?t ! Suc i)" by (rule etats_step)
  from Suc have ih:
    "meilleure_objectif (?t ! i) = valeur self (meilleure_solution (?t ! i))"
    "meilleure_objectif (?t ! i) \<le> valeur self (solution_actuelle (?t ! i))"
    "meilleure_objectif (?t ! i) \<le> meilleure_objectif s"
    by simp_all
  from it obtain v g1 where
    p: "permuter_equipement (generateur (?t ! i)) (solution_actuelle (?t ! i)) = Inr (v, g1)"
    by (rule iteration_Inr) blast
  from iteration_meilleur [OF it ih(1) ih(2) p] ih(3) show ?case by simp
qed

lemma etats_decroit:
  assumes b: "meilleure_objectif s = valeur self (meilleure_solution s)"
    and c: "meilleure_objectif s \<le> valeur self (solution_actuelle s)"
    and j: "j < length (etats self n s)"
  shows "i \<le> j \<Longrightarrow> meilleure_objectif (etats self n s ! j) \<le> meilleure_objectif (etats self n s ! i)"
  using j
proof (induction j)
  case 0
  then show ?case by simp
next
  case (Suc j)
  let ?t = "etats self n s"
  show ?case
  proof (cases "i = Suc j")
    case True
    then show ?thesis by simp
  next
    case False
    with Suc.prems have ij: "i \<le> j" "j < length ?t" by simp_all
    from Suc.prems have it: "iteration self (?t ! j) = Inr (?t ! Suc j)" by (intro etats_step)
    from it obtain v g1 where
      p: "permuter_equipement (generateur (?t ! j)) (solution_actuelle (?t ! j)) = Inr (v, g1)"
      by (rule iteration_Inr) blast
    from etats_meilleur [OF b c ij(2)] have
      "meilleure_objectif (?t ! j) = valeur self (meilleure_solution (?t ! j))"
      "meilleure_objectif (?t ! j) \<le> valeur self (solution_actuelle (?t ! j))"
      by simp_all
    from iteration_meilleur(3) [OF it this p] Suc.IH [OF ij] show ?thesis by simp
  qed
qed

subsection \<open>Devices that are not usable keep their state\<close>

lemma conforme_initial:
  "conforme devices
     (map (\<lambda>device. \<lparr>power_max = dev_power_max device, name = dev_name device,
                     state = dev_is_active device, is_usable = dev_is_usable device\<rparr>)
        devices)"
  by (simp add: conforme_def)

lemma permuter_equipement_conforme:
  assumes "permuter_equipement g solution = Inr (v, g')" and "conforme devices solution"
  shows "conforme devices v"
proof -
  from permuter_equipement_Inr [OF assms(1)] obtain k where k:
    "k < length solution" "is_usable (solution ! k)"
    "v = solution[k := (solution ! k)\<lparr>state := \<not> state (solution ! k)\<rparr>]"
    by blast
  have len: "length v = length devices" using k(3) assms(2) by (simp add: conforme_def)
  have "is_usable (v ! i) = dev_is_usable (devices ! i)
        \<and> (\<not> dev_is_usable (devices ! i) \<longrightarrow> state (v ! i) = dev_is_active (devices ! i))"
    if "i < length devices" for i
  proof (cases "i = k")
    case True
    with k assms(2) that show ?thesis by (auto simp: conforme_def)
  next
    case False
    with k assms(2) that show ?thesis by (simp add: conforme_def)
  qed
  with len show ?thesis by (simp add: conforme_def)
qed

lemma iteration_conforme:
  assumes it: "iteration self s = Inr s'"
    and c: "conforme devices (solution_actuelle s)"
    and b: "conforme devices (meilleure_solution s)"
  shows "conforme devices (solution_actuelle s') \<and> conforme devices (meilleure_solution s')"
proof -
  from it obtain oa v g1 ov om where h:
    "permuter_equipement (generateur s) (solution_actuelle s) = Inr (v, g1)"
    "ov < oa \<Longrightarrow> solution_actuelle s' = v"
    "ov < oa \<Longrightarrow> ov < om \<Longrightarrow> meilleure_solution s' = v \<and> meilleure_objectif s' = ov"
    "\<not> (ov < oa \<and> ov < om) \<Longrightarrow>
       meilleure_solution s' = meilleure_solution s \<and> meilleure_objectif s' = meilleure_objectif s"
    "\<not> ov < oa \<Longrightarrow>
       solution_actuelle s' =
         (if shd (reels g1) < exp ((oa - ov) / temperature s) then v else solution_actuelle s)"
    by (rule iteration_Inr) blast
  have v: "conforme devices v" using h(1) c by (rule permuter_equipement_conforme)
  have "solution_actuelle s' = v \<or> solution_actuelle s' = solution_actuelle s"
    using h(2,5) by (cases "ov < oa") (auto split: if_splits)
  moreover have "meilleure_solution s' = v \<or> meilleure_solution s' = meilleure_solution s"
    using h(3,4) by (cases "ov < oa \<and> ov < om") auto
  ultimately show ?thesis using v c b by auto
qed

lemma etats_conforme:
  assumes c: "conforme devices (solution_actuelle s)"
    and b: "conforme devices (meilleure_solution s)"
  shows "i < length (etats self n s) \<Longrightarrow>
     conforme devices (solution_actuelle (etats self n s ! i))
     \<and> conforme devices (meilleure_solution (etats self n s ! i))"
proof (induction i)
  case 0
  with b c show ?case by (simp add: etats_hd)
next
  case (Suc i)
  then have "iteration self (etats self n s ! i) = Inr (etats self n s ! Suc i)"
    by (intro etats_step)
  from iteration_conforme [OF this] Suc show ?case by simp
qed

subsection \<open>When the loop returns\<close>

lemma math_exp_nonpos:
  assumes "x \<le> 0"
  shows "math_exp x = Inr (exp x)"
proof -
  have "(0::real) \<le> 709.782712893384" by simp
  with assms have "\<not> x > 709.782712893384" by linarith
  then show ?thesis unfolding math_exp_def by (rule if_not_P)
qed

lemma iteration_returns:
  assumes d: "denominateur self \<noteq> 0"
    and u: "k < length (solution_actuelle s)" "is_usable (solution_actuelle s ! k)"
    and t: "0 < temperature s"
  shows "\<exists>s'. iteration self s = Inr s'"
proof -
  from permuter_equipement_usable [OF u] obtain v g1 where
    p: "permuter_equipement (generateur s) (solution_actuelle s) = Inr (v, g1)" by blast
  let ?oa = "valeur self (solution_actuelle s)" and ?ov = "valeur self v"
  show ?thesis
  proof (cases "?ov < ?oa")
    case True
    then show ?thesis
      by (simp add: iteration_def calculer_objectif_valeur [OF d] p)
  next
    case False
    then have "(?oa - ?ov) / temperature s \<le> 0"
      using t by (simp add: divide_nonpos_pos)
    then have "math_exp ((?oa - ?ov) / temperature s) = Inr (exp ((?oa - ?ov) / temperature s))"
      by (rule math_exp_nonpos)
    with False t show ?thesis
      by (simp add: iteration_def calculer_objectif_valeur [OF d] p fdiv_def
            random_random_def Let_def)
  qed
qed

lemma iteration_keeps_usable:
  assumes it: "iteration self s = Inr s'"
    and u: "k < length (solution_actuelle s)" "is_usable (solution_actuelle s ! k)"
  shows "k < length (solution_actuelle s') \<and> is_usable (solution_actuelle s' ! k)"
proof -
  from it obtain oa v g1 ov where h:
    "permuter_equipement (generateur s) (solution_actuelle s) = Inr (v, g1)"
    "ov < oa \<Longrightarrow> solution_actuelle s' = v"
    "\<not> ov < oa \<Longrightarrow>
       solution_actuelle s' =
         (if shd (reels g1) < exp ((oa - ov) / temperature s) then v else solution_actuelle s)"
    by (rule iteration_Inr) blast
  from permuter_equipement_Inr [OF h(1)] obtain j where j:
    "j < length (solution_actuelle s)"
    "v = (solution_actuelle s)[j := (solution_actuelle s ! j)\<lparr>state := \<not> state (solution_actuelle s ! j)\<rparr>]"
    by blast
  have "k < length v \<and> is_usable (v ! k)"
    using j u by (cases "j = k") simp_all
  moreover have "solution_actuelle s' = v \<or> solution_actuelle s' = solution_actuelle s"
    using h(2,3) by (cases "ov < oa") (auto split: if_splits)
  ultimately show ?thesis using u by auto
qed

lemma etats_temperature_floor:
  assumes "Suc i < length (etats self n s)"
  shows "min (temperature s) (temperature_minimale self) \<le> temperature (etats self n s ! i)"
proof (cases i)
  case 0
  then show ?thesis by (simp add: etats_hd)
next
  case (Suc j)
  with assms have "\<not> temperature (etats self n s ! i) < temperature_minimale self"
    by (intro etats_stop) simp_all
  then show ?thesis by (simp add: min_le_iff_disj)
qed

text \<open>
  An iteration starts with the initial temperature or with one that the test of line 164
  has found not below the minimal one: with both positive no division of line 146 is by
  zero, whatever the cooling factor.
\<close>

lemma boucle_returns:
  assumes d: "denominateur self \<noteq> 0" and m: "0 < temperature_minimale self"
  shows "k < length (solution_actuelle s) \<Longrightarrow> is_usable (solution_actuelle s ! k) \<Longrightarrow>
         0 < temperature s \<Longrightarrow> \<exists>sf. boucle self n s = Inr sf"
proof (induction n arbitrary: s)
  case 0
  then show ?case by simp
next
  case (Suc n)
  from iteration_returns [OF d Suc.prems] obtain s' where s': "iteration self s = Inr s'" by blast
  show ?case
  proof (cases "temperature s' < temperature_minimale self")
    case True
    with s' show ?thesis by simp
  next
    case False
    with m have t: "0 < temperature s'" by simp
    from iteration_keeps_usable [OF s' Suc.prems(1,2)]
    have "k < length (solution_actuelle s')" "is_usable (solution_actuelle s' ! k)" by simp_all
    from Suc.IH [OF this t] s' False show ?thesis by simp
  qed
qed

lemmas evaluation =
  recuit_simule_def initialiser_def affecter_def generer_solution_initiale_def
  calculer_objectif_def consommation_equipements_def fdiv_def Let_def iteration_def
  permuter_equipement_def random_choice_def random_random_def math_exp_def
  exemple_algo_def exemple_devices_def exemple_alea_def exemple_contexte_def exemple_etat0_def

lemma exemple_initialiser:
  "initialiser (affecter exemple_algo exemple_devices (- 1200) 1200 10 15 13) exemple_alea
     = Inr (exemple_contexte, exemple_etat0)"
  by (simp add: evaluation)

lemmas exemples = exemple_etat1_def exemple_etat2_def

lemma exemple_etats:
  "etats exemple_contexte 5 exemple_etat0 = [exemple_etat0, exemple_etat1, exemple_etat2]"
  by (simp add: evaluation exemples eval_nat_numeral)

lemma exemple_boucle:
  "boucle exemple_contexte 5 exemple_etat0 = Inr exemple_etat2"
  by (simp add: evaluation exemples eval_nat_numeral)

lemma exemple_iteration1:
  "iteration exemple_contexte exemple_etat1 = Inr exemple_etat2"
  by (simp add: evaluation exemples)

section \<open>The claims\<close>

text \<open>
  C1. In a call of \<^verbatim>\<open>recuit_simule\<close> whose tariff divisor is not zero, the loop runs
  with an object whose initial power is the total power of the initial solution, and for
  every solution the objective computed with that object is
  \<open>import_weight * grid_import + export_weight * grid_export\<close> as the specification
  defines them.
\<close>

theorem objective_formula:
  assumes "bc + sc * (1 - tax / 100) \<noteq> 0" and "devices \<noteq> []"
  shows "\<exists>self' s0.
           initialiser (affecter self devices pc sp sc bc tax) g = Inr (self', s0)
         \<and> recuit_simule self g devices (Some pc) (Some sp) (Some sc) (Some bc) (Some tax) =
             (case boucle self' (nat (nombre_iterations self')) s0 of
                Inl e \<Rightarrow> Inl e
              | Inr s \<Rightarrow> Inr (meilleure_solution s, meilleure_objectif s,
                              consommation_equipements (meilleure_solution s)))
         \<and> puissance_totale_eqt_initiale self' = consommation_equipements (solution_actuelle s0)
         \<and> (\<forall>solution.
               calculer_objectif self' solution =
                 Inr (objective_spec (consommation_equipements solution)
                        (consommation_equipements (solution_actuelle s0)) pc bc sc tax))"
proof -
  let ?a = "affecter self devices pc sp sc bc tax"
  let ?self' = "snd (generer_solution_initiale ?a (equipements ?a))"
  have d: "denominateur ?self' \<noteq> 0"
    using assms by (simp add: denominateur_def generer_solution_initiale_def affecter_def)
  from calculer_objectif_valeur [OF d, of "equipements ?a"]
  obtain s0 where i: "initialiser ?a g = Inr (?self', s0)"
    by (simp add: initialiser_def generer_solution_initiale_def Let_def)
  note f = initialiser_Inr [OF i]
  have "calculer_objectif ?self' solution =
          Inr (objective_spec (consommation_equipements solution)
                 (consommation_equipements (solution_actuelle s0)) pc bc sc tax)" for solution
    using calculer_objectif_val [OF d, of solution] f(5,6,7,8,13) by simp
  moreover have "recuit_simule self g devices (Some pc) (Some sp) (Some sc) (Some bc) (Some tax) =
             (case boucle ?self' (nat (nombre_iterations ?self')) s0 of
                Inl e \<Rightarrow> Inl e
              | Inr s \<Rightarrow> Inr (meilleure_solution s, meilleure_objectif s,
                              consommation_equipements (meilleure_solution s)))"
    using i assms(2) by (simp add: recuit_simule_def)
  ultimately show ?thesis using i f(13) by blast
qed

theorem objective_formula_witness:
  "(15::real) + 10 * (1 - 13 / 100) \<noteq> 0 \<and> exemple_devices \<noteq> []
   \<and> calculer_objectif exemple_contexte (solution_actuelle exemple_etat1) =
       Inr (objective_spec 1000 0 (- 1200) 15 10 13)"
proof -
  have h: "(15::real) + 10 * (1 - 13 / 100) \<noteq> 0" "exemple_devices \<noteq> []"
    by (simp_all add: exemple_devices_def)
  from objective_formula [OF h, of exemple_algo "- 1200" 1200 exemple_alea]
  have "calculer_objectif exemple_contexte (solution_actuelle exemple_etat1) =
          Inr (objective_spec (consommation_equipements (solution_actuelle exemple_etat1))
                 (consommation_equipements (solution_actuelle exemple_etat0)) (- 1200) 15 10 13)"
    by (auto simp: exemple_initialiser)
  with h show ?thesis
    by (simp add: consommation_equipements_def exemple_etat0_def exemple_etat1_def)
qed

text \<open>
  C7 fails on the code: with a buying cost of 0 and a tax of 100 percent the divisor is
  zero, and the objective function raises \<^verbatim>\<open>ZeroDivisionError\<close>, not an error of the
  name \<^verbatim>\<open>InvalidTariff\<close>.
\<close>

theorem zero_tariff_counterexample:
  "cout_achat tarif_nul + cout_revente tarif_nul * (1 - taxe_revente tarif_nul / 100) = 0
   \<and> calculer_objectif tarif_nul (solution_actuelle exemple_etat0) = Inl ZeroDivisionError
   \<and> calculer_objectif tarif_nul (solution_actuelle exemple_etat0) \<noteq> Inl InvalidTariff"
  by (simp add: evaluation tarif_nul_def)

text \<open>
  C7 as the code has it. When \<open>buy_cost + sell_cost * (1 - sell_tax_percent / 100)\<close> is
  zero the objective function raises \<^verbatim>\<open>ZeroDivisionError\<close> at its first division: the
  divisor is not validated and no error of the name \<^verbatim>\<open>InvalidTariff\<close> exists.
\<close>

theorem zero_tariff_raises:
  assumes "cout_achat self + cout_revente self * (1 - taxe_revente self / 100) = 0"
  shows "calculer_objectif self solution = Inl ZeroDivisionError"
  using assms by (simp add: calculer_objectif_zero denominateur_def)

theorem zero_tariff_raises_witness:
  "cout_achat tarif_nul + cout_revente tarif_nul * (1 - taxe_revente tarif_nul / 100) = 0
   \<and> calculer_objectif tarif_nul (solution_actuelle exemple_etat1) = Inl ZeroDivisionError"
proof -
  have h: "cout_achat tarif_nul + cout_revente tarif_nul * (1 - taxe_revente tarif_nul / 100) = 0"
    by (simp add: tarif_nul_def exemple_contexte_def)
  from h zero_tariff_raises [OF h] show ?thesis by simp
qed

text \<open>
  C9. With a positive buying cost, a selling cost that is not negative and a tax of at most
  100 percent, the objective function returns a value that is not negative; the value -1 of
  the sentinel is never computed.
\<close>

theorem objective_nonnegative:
  assumes "0 < cout_achat self" and "0 \<le> cout_revente self" and "taxe_revente self \<le> 100"
  shows "\<exists>v. calculer_objectif self solution = Inr v \<and> 0 \<le> v \<and> v \<noteq> - 1"
proof -
  have "0 \<le> cout_revente self * (1 - taxe_revente self / 100)"
    using assms by simp
  with assms(1) have d: "denominateur self \<noteq> 0"
    unfolding denominateur_def by linarith
  have "0 \<le> valeur self solution"
    unfolding valeur_def using assms by (rule objective_spec_nonneg)
  with calculer_objectif_valeur [OF d, of solution] show ?thesis by simp
qed

theorem objective_nonnegative_witness:
  "0 < cout_achat exemple_contexte \<and> 0 \<le> cout_revente exemple_contexte
   \<and> taxe_revente exemple_contexte \<le> 100
   \<and> calculer_objectif exemple_contexte (solution_actuelle exemple_etat1) = Inr (5800 / 79)
   \<and> (0::real) \<le> 5800 / 79"
proof -
  have h: "0 < cout_achat exemple_contexte" "0 \<le> cout_revente exemple_contexte"
    "taxe_revente exemple_contexte \<le> 100"
    by (simp_all add: exemple_contexte_def)
  from objective_nonnegative [OF h, of "solution_actuelle exemple_etat1"]
  obtain v where v: "calculer_objectif exemple_contexte (solution_actuelle exemple_etat1) = Inr v"
    "0 \<le> v" by blast
  moreover have "calculer_objectif exemple_contexte (solution_actuelle exemple_etat1)
      = Inr (5800 / 79)"
    by (simp add: evaluation exemples)
  ultimately show ?thesis using h by simp
qed

lemma iteration_temperature:
  "iteration self s = Inr s' \<Longrightarrow> temperature s' = temperature s * facteur_refroidissement self"
  by (rule iteration_Inr)

text \<open>
  C2. In an iteration whose neighbour is not better than the current solution, the neighbour
  becomes the current solution exactly when the number drawn by \<^verbatim>\<open>random.random\<close> is
  below \<open>exp ((objective current - objective neighbour) / temperature)\<close>; otherwise the
  current solution stays; the best solution and its objective are not changed. With a
  positive temperature the iteration returns.
\<close>

theorem metropolis_rule:
  assumes oa: "calculer_objectif self (solution_actuelle s) = Inr objectif_actuel"
    and p: "permuter_equipement (generateur s) (solution_actuelle s) = Inr (voisin, g1)"
    and ov: "calculer_objectif self voisin = Inr objectif_voisin"
    and le: "objectif_actuel \<le> objectif_voisin"
  shows "(0 < temperature s \<longrightarrow> (\<exists>s'. iteration self s = Inr s'))
       \<and> (\<forall>s'. iteration self s = Inr s' \<longrightarrow>
             (solution_actuelle s' = voisin \<longleftrightarrow>
                shd (reels g1) < exp ((objectif_actuel - objectif_voisin) / temperature s))
           \<and> (solution_actuelle s' = solution_actuelle s \<longleftrightarrow>
                \<not> shd (reels g1) < exp ((objectif_actuel - objectif_voisin) / temperature s))
           \<and> meilleure_solution s' = meilleure_solution s
           \<and> meilleure_objectif s' = meilleure_objectif s)"
proof -
  have d: "denominateur self \<noteq> 0" using oa by (rule calculer_objectif_Inr)
  from permuter_equipement_Inr [OF p] obtain k where
    k: "k < length (solution_actuelle s)" "is_usable (solution_actuelle s ! k)" by blast
  have returns: "\<exists>s'. iteration self s = Inr s'" if "0 < temperature s"
    using d k that by (rule iteration_returns)
  have rule: "(solution_actuelle s' = voisin \<longleftrightarrow>
                shd (reels g1) < exp ((objectif_actuel - objectif_voisin) / temperature s))
           \<and> (solution_actuelle s' = solution_actuelle s \<longleftrightarrow>
                \<not> shd (reels g1) < exp ((objectif_actuel - objectif_voisin) / temperature s))
           \<and> meilleure_solution s' = meilleure_solution s
           \<and> meilleure_objectif s' = meilleure_objectif s"
    if s': "iteration self s = Inr s'" for s'
  proof -
    from s' obtain oa' v' g' ov' om' where h:
      "calculer_objectif self (solution_actuelle s) = Inr oa'"
      "permuter_equipement (generateur s) (solution_actuelle s) = Inr (v', g')"
      "calculer_objectif self v' = Inr ov'"
      "\<not> (ov' < oa' \<and> ov' < om') \<Longrightarrow>
         meilleure_solution s' = meilleure_solution s \<and> meilleure_objectif s' = meilleure_objectif s"
      "\<not> ov' < oa' \<Longrightarrow>
         solution_actuelle s' =
           (if shd (reels g') < exp ((oa' - ov') / temperature s) then v' else solution_actuelle s)"
      by (rule iteration_Inr) blast
    from h(1,2,3) oa p ov have e:
      "oa' = objectif_actuel" "v' = voisin" "g' = g1" "ov' = objectif_voisin"
      by simp_all
    have n: "\<not> ov' < oa'" using le e by simp
    have ne: "voisin \<noteq> solution_actuelle s" using p by (rule permuter_equipement_differs)
    from h(4) n have "meilleure_solution s' = meilleure_solution s"
      "meilleure_objectif s' = meilleure_objectif s" by simp_all
    moreover from h(5) [OF n] e ne
    have "solution_actuelle s' = voisin \<longleftrightarrow>
            shd (reels g1) < exp ((objectif_actuel - objectif_voisin) / temperature s)"
         "solution_actuelle s' = solution_actuelle s \<longleftrightarrow>
            \<not> shd (reels g1) < exp ((objectif_actuel - objectif_voisin) / temperature s)"
      by auto
    ultimately show ?thesis by blast
  qed
  from returns rule show ?thesis by blast
qed

theorem metropolis_rule_witness:
  "calculer_objectif exemple_contexte (solution_actuelle exemple_etat1) = Inr (5800 / 79)
   \<and> permuter_equipement (generateur exemple_etat1) (solution_actuelle exemple_etat1)
       = Inr (solution_actuelle exemple_etat0, exemple_alea)
   \<and> calculer_objectif exemple_contexte (solution_actuelle exemple_etat0) = Inr (34800 / 79)
   \<and> (5800 / 79 :: real) \<le> 34800 / 79
   \<and> 0 < temperature exemple_etat1
   \<and> iteration exemple_contexte exemple_etat1 = Inr exemple_etat2
   \<and> solution_actuelle exemple_etat2 = solution_actuelle exemple_etat0
   \<and> shd (reels exemple_alea) < exp ((5800 / 79 - 34800 / 79) / temperature exemple_etat1)
   \<and> meilleure_solution exemple_etat2 = meilleure_solution exemple_etat1"
proof -
  have h1: "calculer_objectif exemple_contexte (solution_actuelle exemple_etat1) = Inr (5800 / 79)"
    by (simp add: evaluation exemples)
  have h2: "permuter_equipement (generateur exemple_etat1) (solution_actuelle exemple_etat1)
       = Inr (solution_actuelle exemple_etat0, exemple_alea)"
    by (simp add: evaluation exemples)
  have h3: "calculer_objectif exemple_contexte (solution_actuelle exemple_etat0) = Inr (34800 / 79)"
    by (simp add: evaluation exemples)
  have h4: "(5800 / 79 :: real) \<le> 34800 / 79" by simp
  have h5: "0 < temperature exemple_etat1" by (simp add: exemples)
  note c = metropolis_rule [OF h1 h2 h3 h4, THEN conjunct2, rule_format, OF exemple_iteration1]
  have same: "solution_actuelle exemple_etat2 = solution_actuelle exemple_etat0"
    by (simp add: exemples exemple_etat0_def)
  from c [THEN conjunct1] same
  have "shd (reels exemple_alea) < exp ((5800 / 79 - 34800 / 79) / temperature exemple_etat1)"
    by simp
  moreover from c have "meilleure_solution exemple_etat2 = meilleure_solution exemple_etat1"
    by simp
  ultimately show ?thesis using h1 h2 h3 h4 h5 exemple_iteration1 same by simp
qed

text \<open>
  C3. In a call with a cooling factor strictly between 0 and 1 and a positive initial
  temperature, the temperature after each iteration is the one before it times the cooling
  factor, hence strictly smaller; at most \<^verbatim>\<open>max_iteration_number\<close> iterations are
  completed; an iteration whose new temperature is below the minimal one is the last; and
  a loop that returns after fewer iterations has a final temperature below the minimal one.
\<close>

theorem cooling_schedule:
  assumes init: "initialiser (affecter self devices pc sp sc bc tax) g = Inr (self', s0)"
    and f: "0 < facteur_refroidissement self" "facteur_refroidissement self < 1"
    and t0: "0 < temperature_initiale self"
  shows "(let n = nat (nombre_iterations self); tr = etats self' n s0 in
          temperature (tr ! 0) = temperature_initiale self
        \<and> (\<forall>i. Suc i < length tr \<longrightarrow>
              temperature (tr ! Suc i) = temperature (tr ! i) * facteur_refroidissement self
              \<and> temperature (tr ! Suc i) < temperature (tr ! i))
        \<and> length tr \<le> Suc n
        \<and> (\<forall>i. 0 < i \<and> i < length tr \<and> temperature (tr ! i) < temperature_minimale self \<longrightarrow>
              Suc i = length tr)
        \<and> (\<forall>sf. boucle self' n s0 = Inr sf \<longrightarrow>
              sf = last tr \<and> (length tr < Suc n \<longrightarrow> temperature sf < temperature_minimale self)))"
proof -
  note i = initialiser_Inr [OF init]
  define n where "n = nat (nombre_iterations self)"
  define tr where "tr = etats self' n s0"
  have a: "temperature (tr ! 0) = temperature_initiale self"
    by (simp add: tr_def etats_hd i(1))
  have pos: "0 < temperature (tr ! j)" if "j < length tr" for j
    using etats_temperature [of j self' n s0] that f(1) t0 i(1,3) by (simp add: tr_def)
  have b: "temperature (tr ! Suc j) = temperature (tr ! j) * facteur_refroidissement self
           \<and> temperature (tr ! Suc j) < temperature (tr ! j)" if "Suc j < length tr" for j
  proof -
    from that have "iteration self' (tr ! j) = Inr (tr ! Suc j)"
      unfolding tr_def by (rule etats_step)
    then have e: "temperature (tr ! Suc j) = temperature (tr ! j) * facteur_refroidissement self"
      using i(3) by (simp add: iteration_temperature)
    from that have "0 < temperature (tr ! j)" by (intro pos) simp
    with f(2) have "temperature (tr ! j) * facteur_refroidissement self < temperature (tr ! j)"
      by simp
    with e show ?thesis by simp
  qed
  have c: "length tr \<le> Suc n" using etats_length [of self' n s0] by (simp add: tr_def)
  have d: "Suc j = length tr"
    if "0 < j \<and> j < length tr \<and> temperature (tr ! j) < temperature_minimale self" for j
  proof (rule ccontr)
    assume "Suc j \<noteq> length tr"
    with that have "Suc j < length tr" by simp
    with that etats_stop [of j self' n s0] i(2) show False by (simp add: tr_def)
  qed
  have e: "sf = last tr \<and> (length tr < Suc n \<longrightarrow> temperature sf < temperature_minimale self)"
    if "boucle self' n s0 = Inr sf" for sf
    using boucle_etats [OF that] i(2) by (auto simp: tr_def)
  from a b c d e show ?thesis
    unfolding Let_def n_def [symmetric] tr_def [symmetric] by blast
qed

theorem cooling_schedule_witness:
  "initialiser (affecter exemple_algo exemple_devices (- 1200) 1200 10 15 13) exemple_alea
     = Inr (exemple_contexte, exemple_etat0)
   \<and> 0 < facteur_refroidissement exemple_algo \<and> facteur_refroidissement exemple_algo < 1
   \<and> 0 < temperature_initiale exemple_algo
   \<and> etats exemple_contexte (nat (nombre_iterations exemple_algo)) exemple_etat0
        = [exemple_etat0, exemple_etat1, exemple_etat2]
   \<and> temperature exemple_etat1 = temperature exemple_etat0 * facteur_refroidissement exemple_algo
   \<and> temperature exemple_etat2 < temperature exemple_etat1
   \<and> temperature exemple_etat2 < temperature_minimale exemple_algo
   \<and> boucle exemple_contexte (nat (nombre_iterations exemple_algo)) exemple_etat0
        = Inr exemple_etat2"
proof -
  have n: "nat (nombre_iterations exemple_algo) = 5" by (simp add: exemple_algo_def)
  have h: "0 < facteur_refroidissement exemple_algo" "facteur_refroidissement exemple_algo < 1"
    "0 < temperature_initiale exemple_algo"
    by (simp_all add: exemple_algo_def)
  have tr: "etats exemple_contexte (nat (nombre_iterations exemple_algo)) exemple_etat0
        = [exemple_etat0, exemple_etat1, exemple_etat2]"
    by (simp add: n exemple_etats)
  have b: "boucle exemple_contexte (nat (nombre_iterations exemple_algo)) exemple_etat0
        = Inr exemple_etat2"
    by (simp add: n exemple_boucle)
  note c = cooling_schedule [OF exemple_initialiser h, unfolded Let_def tr]
  note c1 = c [THEN conjunct2, THEN conjunct1, rule_format]
  note c4 = c [THEN conjunct2, THEN conjunct2, THEN conjunct2, THEN conjunct2, rule_format]
  have "temperature exemple_etat1 = temperature exemple_etat0 * facteur_refroidissement exemple_algo"
    using c1 [of 0] by simp
  moreover have "temperature exemple_etat2 < temperature exemple_etat1"
    using c1 [of 1] by simp
  moreover have "temperature exemple_etat2 < temperature_minimale exemple_algo"
    using c4 [OF b] by (simp add: n)
  ultimately show ?thesis using exemple_initialiser h tr b by simp
qed

text \<open>
  C4. When the loop of a call returns, the returned objective is the objective of the
  returned solution, it is at most the objective of the initial solution, of every current
  solution and of every neighbour generated in an iteration of the run, and the objective of
  the best solution never increases from one iteration to the next.
\<close>

theorem best_objective_minimum:
  assumes init: "initialiser (affecter self devices pc sp sc bc tax) g = Inr (self', s0)"
    and run: "boucle self' (nat (nombre_iterations self')) s0 = Inr sf"
    and ne: "devices \<noteq> []"
  shows "(let tr = etats self' (nat (nombre_iterations self')) s0 in
          recuit_simule self g devices (Some pc) (Some sp) (Some sc) (Some bc) (Some tax)
            = Inr (meilleure_solution sf, meilleure_objectif sf,
                   consommation_equipements (meilleure_solution sf))
        \<and> calculer_objectif self' (meilleure_solution sf) = Inr (meilleure_objectif sf)
        \<and> calculer_objectif self' (solution_actuelle s0) = Inr (meilleure_objectif s0)
        \<and> meilleure_objectif sf \<le> meilleure_objectif s0
        \<and> (\<forall>i < length tr. \<exists>oc.
              calculer_objectif self' (solution_actuelle (tr ! i)) = Inr oc
              \<and> meilleure_objectif sf \<le> oc)
        \<and> (\<forall>i v g1. Suc i < length tr
              \<and> permuter_equipement (generateur (tr ! i)) (solution_actuelle (tr ! i)) = Inr (v, g1)
              \<longrightarrow> (\<exists>ov. calculer_objectif self' v = Inr ov \<and> meilleure_objectif sf \<le> ov))
        \<and> (\<forall>i. Suc i < length tr \<longrightarrow>
              meilleure_objectif (tr ! Suc i) \<le> meilleure_objectif (tr ! i)))"
proof -
  note i = initialiser_Inr [OF init]
  define tr where "tr = etats self' (nat (nombre_iterations self')) s0"
  have d: "denominateur self' \<noteq> 0" using i(14) by (rule calculer_objectif_Inr)
  note co = calculer_objectif_valeur [OF d]
  have b0: "meilleure_objectif s0 = valeur self' (meilleure_solution s0)"
    using i(12,14) by (simp add: calculer_objectif_eq)
  have c0: "meilleure_objectif s0 \<le> valeur self' (solution_actuelle s0)"
    using b0 i(12) by simp
  have len: "0 < length tr" using etats_length [of self' _ s0] by (simp add: tr_def)
  have sf: "sf = tr ! (length tr - 1)"
    using boucle_etats [OF run] len by (simp add: tr_def last_conv_nth)
  have inv: "meilleure_objectif (tr ! j) = valeur self' (meilleure_solution (tr ! j))
           \<and> meilleure_objectif (tr ! j) \<le> valeur self' (solution_actuelle (tr ! j))
           \<and> meilleure_objectif (tr ! j) \<le> meilleure_objectif s0" if "j < length tr" for j
    using that unfolding tr_def by (rule etats_meilleur [OF b0 c0])
  have dec: "meilleure_objectif (tr ! k) \<le> meilleure_objectif (tr ! j)"
    if "j \<le> k" "k < length tr" for j k
    using that unfolding tr_def by (intro etats_decroit [OF b0 c0])
  have r: "recuit_simule self g devices (Some pc) (Some sp) (Some sc) (Some bc) (Some tax)
            = Inr (meilleure_solution sf, meilleure_objectif sf,
                   consommation_equipements (meilleure_solution sf))"
    using init run ne by (simp add: recuit_simule_def)
  have a1: "calculer_objectif self' (meilleure_solution sf) = Inr (meilleure_objectif sf)"
    using inv [of "length tr - 1"] len sf co by simp
  have a2: "meilleure_objectif sf \<le> meilleure_objectif s0"
    using inv [of "length tr - 1"] len sf by simp
  have a3: "\<exists>oc. calculer_objectif self' (solution_actuelle (tr ! j)) = Inr oc
              \<and> meilleure_objectif sf \<le> oc" if "j < length tr" for j
  proof -
    have "meilleure_objectif sf \<le> meilleure_objectif (tr ! j)"
      unfolding sf using that by (intro dec) simp_all
    with inv [OF that] co show ?thesis by auto
  qed
  have a4: "\<exists>ov. calculer_objectif self' v = Inr ov \<and> meilleure_objectif sf \<le> ov"
    if "Suc j < length tr"
      "permuter_equipement (generateur (tr ! j)) (solution_actuelle (tr ! j)) = Inr (v, g1)"
    for j v g1
  proof -
    from that(1) have it: "iteration self' (tr ! j) = Inr (tr ! Suc j)"
      unfolding tr_def by (rule etats_step)
    from that(1) have j: "j < length tr" by simp
    from inv [OF j] have "meilleure_objectif (tr ! j) = valeur self' (meilleure_solution (tr ! j))"
      "meilleure_objectif (tr ! j) \<le> valeur self' (solution_actuelle (tr ! j))" by simp_all
    from iteration_meilleur(4) [OF it this that(2)]
    have "meilleure_objectif (tr ! Suc j) \<le> valeur self' v" .
    moreover have "meilleure_objectif sf \<le> meilleure_objectif (tr ! Suc j)"
      unfolding sf using that(1) by (intro dec) simp_all
    ultimately show ?thesis using co by auto
  qed
  have a5: "meilleure_objectif (tr ! Suc j) \<le> meilleure_objectif (tr ! j)"
    if "Suc j < length tr" for j
    using that by (intro dec) simp_all
  from r a1 i(14) a2 a3 a4 a5 show ?thesis
    unfolding Let_def tr_def [symmetric] by blast
qed

theorem best_objective_minimum_witness:
  "initialiser (affecter exemple_algo exemple_devices (- 1200) 1200 10 15 13) exemple_alea
     = Inr (exemple_contexte, exemple_etat0)
   \<and> boucle exemple_contexte (nat (nombre_iterations exemple_contexte)) exemple_etat0
       = Inr exemple_etat2
   \<and> exemple_devices \<noteq> []
   \<and> recuit_simule exemple_algo exemple_alea exemple_devices (Some (- 1200)) (Some 1200)
        (Some 10) (Some 15) (Some 13)
       = Inr (meilleure_solution exemple_etat2, meilleure_objectif exemple_etat2,
              consommation_equipements (meilleure_solution exemple_etat2))
   \<and> meilleure_objectif exemple_etat2 \<le> meilleure_objectif exemple_etat0
   \<and> calculer_objectif exemple_contexte (meilleure_solution exemple_etat2) = Inr (5800 / 79)"
proof -
  have n: "nat (nombre_iterations exemple_contexte) = 5" by (simp add: exemple_contexte_def)
  have b: "boucle exemple_contexte (nat (nombre_iterations exemple_contexte)) exemple_etat0
       = Inr exemple_etat2"
    by (simp add: n exemple_boucle)
  have d: "exemple_devices \<noteq> []" by (simp add: exemple_devices_def)
  note c = best_objective_minimum [OF exemple_initialiser b d, unfolded Let_def]
  note c1 = c [THEN conjunct1]
  note c2 = c [THEN conjunct2, THEN conjunct1]
  note c4 = c [THEN conjunct2, THEN conjunct2, THEN conjunct2, THEN conjunct1]
  have m: "meilleure_objectif exemple_etat2 = 5800 / 79" by (simp add: exemples)
  from c2 m have "calculer_objectif exemple_contexte (meilleure_solution exemple_etat2)
      = Inr (5800 / 79)" by simp
  with c1 c4 exemple_initialiser b d show ?thesis by simp
qed

lemma objective_formula_init:
  assumes "bc + sc * (1 - tax / 100) \<noteq> 0"
  shows "\<exists>self' s0. initialiser (affecter self devices pc sp sc bc tax) g = Inr (self', s0)"
proof -
  let ?a = "affecter self devices pc sp sc bc tax"
  let ?self' = "snd (generer_solution_initiale ?a (equipements ?a))"
  have d: "denominateur ?self' \<noteq> 0"
    using assms by (simp add: denominateur_def generer_solution_initiale_def affecter_def)
  from calculer_objectif_valeur [OF d, of "equipements ?a"] show ?thesis
    by (simp add: initialiser_def generer_solution_initiale_def Let_def)
qed

lemma boucle_objectif:
  assumes init: "initialiser (affecter self devices pc sp sc bc tax) g = Inr (self', s0)"
    and run: "boucle self' n s0 = Inr sf"
  shows "calculer_objectif self' (meilleure_solution sf) = Inr (meilleure_objectif sf)"
proof -
  note i = initialiser_Inr [OF init]
  have d: "denominateur self' \<noteq> 0" using i(14) by (rule calculer_objectif_Inr)
  have b0: "meilleure_objectif s0 = valeur self' (meilleure_solution s0)"
    using i(12,14) by (simp add: calculer_objectif_eq)
  have c0: "meilleure_objectif s0 \<le> valeur self' (solution_actuelle s0)"
    using b0 i(12) by simp
  have len: "0 < length (etats self' n s0)" using etats_length [of self' n s0] by simp
  then have "length (etats self' n s0) - 1 < length (etats self' n s0)" by simp
  from etats_meilleur [OF b0 c0 this] boucle_etats [OF run] len
  have "meilleure_objectif sf = valeur self' (meilleure_solution sf)"
    by (simp add: last_conv_nth)
  with calculer_objectif_valeur [OF d] show ?thesis by simp
qed

lemma etats_set_conforme:
  assumes "conforme devices (solution_actuelle s)" and "conforme devices (meilleure_solution s)"
    and "x \<in> set (etats self n s)"
  shows "conforme devices (solution_actuelle x) \<and> conforme devices (meilleure_solution x)"
proof -
  from assms(3) obtain i where "i < length (etats self n s)" "x = etats self n s ! i"
    by (auto simp: in_set_conv_nth)
  with etats_conforme [OF assms(1,2), of i self n] show ?thesis by simp
qed

lemma boucle_conforme:
  assumes "conforme devices (solution_actuelle s)" and "conforme devices (meilleure_solution s)"
    and "boucle self n s = Inr sf"
  shows "conforme devices (solution_actuelle sf) \<and> conforme devices (meilleure_solution sf)"
proof -
  have "etats self n s \<noteq> []" using etats_length [of self n s] by auto
  then have "last (etats self n s) \<in> set (etats self n s)" by (rule last_in_set)
  with boucle_etats [OF assms(3)] have "sf \<in> set (etats self n s)" by simp
  with assms(1,2) show ?thesis by (rule etats_set_conforme)
qed

text \<open>
  C5. In a call, whatever the number of iterations, every current solution, every best
  solution, every neighbour generated and the returned solution have one dictionary per
  device, and a device that is not usable has in each of them the state it has in the
  input.
\<close>

theorem unusable_devices_fixed:
  assumes init: "initialiser (affecter self devices pc sp sc bc tax) g = Inr (self', s0)"
  shows "(\<forall>s \<in> set (etats self' n s0).
            conforme devices (solution_actuelle s) \<and> conforme devices (meilleure_solution s)
            \<and> (\<forall>v g1. permuter_equipement (generateur s) (solution_actuelle s) = Inr (v, g1)
                  \<longrightarrow> conforme devices v))
       \<and> (\<forall>best bo p.
            devices \<noteq> []
            \<and> recuit_simule self g devices (Some pc) (Some sp) (Some sc) (Some bc) (Some tax)
                = Inr (best, bo, p)
            \<longrightarrow> conforme devices best)"
proof -
  note i = initialiser_Inr [OF init]
  have c0: "conforme devices (solution_actuelle s0)" unfolding i(11) by (rule conforme_initial)
  then have b0: "conforme devices (meilleure_solution s0)" by (simp add: i(12))
  have a: "conforme devices (solution_actuelle s) \<and> conforme devices (meilleure_solution s)
           \<and> (\<forall>v g1. permuter_equipement (generateur s) (solution_actuelle s) = Inr (v, g1)
                  \<longrightarrow> conforme devices v)" if "s \<in> set (etats self' n s0)" for s
    using etats_set_conforme [OF c0 b0 that] permuter_equipement_conforme by blast
  have b: "conforme devices best"
    if "devices \<noteq> []"
      "recuit_simule self g devices (Some pc) (Some sp) (Some sc) (Some bc) (Some tax)
         = Inr (best, bo, p)" for best bo p
  proof -
    from that init obtain sf where
      "boucle self' (nat (nombre_iterations self')) s0 = Inr sf" "best = meilleure_solution sf"
      by (auto simp: recuit_simule_def split: sum.splits)
    with boucle_conforme [OF c0 b0] show ?thesis by simp
  qed
  from a b show ?thesis by blast
qed

theorem unusable_devices_fixed_witness:
  "initialiser (affecter exemple_algo exemple_devices (- 1200) 1200 10 15 13) exemple_alea
     = Inr (exemple_contexte, exemple_etat0)
   \<and> exemple_etat2 \<in> set (etats exemple_contexte 5 exemple_etat0)
   \<and> \<not> dev_is_usable (exemple_devices ! 1)
   \<and> conforme exemple_devices (solution_actuelle exemple_etat2)
   \<and> state (solution_actuelle exemple_etat2 ! 1) = dev_is_active (exemple_devices ! 1)"
proof -
  have m: "exemple_etat2 \<in> set (etats exemple_contexte 5 exemple_etat0)"
    by (simp add: exemple_etats)
  have u: "\<not> dev_is_usable (exemple_devices ! 1)" by (simp add: exemple_devices_def)
  note c = unusable_devices_fixed [OF exemple_initialiser, THEN conjunct1, rule_format, OF m]
  then have c1: "conforme exemple_devices (solution_actuelle exemple_etat2)" by (rule conjunct1)
  then have "state (solution_actuelle exemple_etat2 ! 1) = dev_is_active (exemple_devices ! 1)"
    using u by (simp add: conforme_def exemple_devices_def)
  with exemple_initialiser m u c1 show ?thesis by simp
qed

text \<open>
  C6 fails on the code: with one device, which is not usable, and the five scalar arguments
  present, the call does not return a solution but raises \<^verbatim>\<open>IndexError\<close> in its
  first iteration.
\<close>

theorem solve_raises_counterexample:
  "exemple_fixe \<noteq> []
   \<and> recuit_simule exemple_algo exemple_alea exemple_fixe (Some (- 1200)) (Some 1200) (Some 10)
        (Some 15) (Some 13) = Inl IndexError"
  by (simp add: evaluation exemple_fixe_def eval_nat_numeral)

text \<open>
  C6 as the code has it. The call returns the sentinel \<open>([], -1, -1)\<close> exactly when the
  list of devices is empty or one of the five scalar arguments is \<^verbatim>\<open>None\<close>. Otherwise
  it runs the annealing, in which an exception can be raised; it returns the best solution,
  its objective and its total power whenever the tariff divisor is not zero, the initial
  temperature, the minimal temperature and the cooling factor are positive, and a device is
  usable or no iteration is asked for. Every iteration of such a call starts with a
  temperature that is at least the smaller of the initial and the minimal one, so that
  line 146 does not divide by zero.
\<close>

theorem solve_sentinel:
  "(recuit_simule self g devices pc sp sc bc tax = Inr ([], - 1, - 1) \<longleftrightarrow>
      devices = [] \<or> pc = None \<or> sp = None \<or> sc = None \<or> bc = None \<or> tax = None)
   \<and> (\<forall>a b c d e.
         devices \<noteq> [] \<and> pc = Some a \<and> sp = Some b \<and> sc = Some c \<and> bc = Some d \<and> tax = Some e
         \<and> d + c * (1 - e / 100) \<noteq> 0
         \<and> 0 < temperature_initiale self \<and> 0 < temperature_minimale self
         \<and> 0 < facteur_refroidissement self
         \<and> (nombre_iterations self \<le> 0 \<or> (\<exists>device \<in> set devices. dev_is_usable device))
         \<longrightarrow> (\<exists>best bo self' s0.
                recuit_simule self g devices pc sp sc bc tax
                  = Inr (best, bo, consommation_equipements best)
                \<and> length best = length devices
                \<and> initialiser (affecter self devices a b c d e) g = Inr (self', s0)
                \<and> calculer_objectif self' best = Inr bo
                \<and> (\<forall>i. Suc i < length (etats self' (nat (nombre_iterations self)) s0) \<longrightarrow>
                      min (temperature_initiale self) (temperature_minimale self)
                        \<le> temperature (etats self' (nat (nombre_iterations self)) s0 ! i))))"
proof -
  have sentinel: "recuit_simule self g devices pc sp sc bc tax = Inr ([], - 1, - 1)"
    if "devices = [] \<or> pc = None \<or> sp = None \<or> sc = None \<or> bc = None \<or> tax = None"
    using that by (auto simp: recuit_simule_def)
  have other: "length best = length devices \<and> p = consommation_equipements best
               \<and> (\<exists>self' s0. initialiser (affecter self devices a b c d e) g = Inr (self', s0)
                     \<and> calculer_objectif self' best = Inr bo)"
    if ne: "devices \<noteq> []" and
       args: "pc = Some a" "sp = Some b" "sc = Some c" "bc = Some d" "tax = Some e" and
       r: "recuit_simule self g devices pc sp sc bc tax = Inr (best, bo, p)"
    for a b c d e best bo p
  proof -
    from r ne args obtain self' s0 where
      init: "initialiser (affecter self devices a b c d e) g = Inr (self', s0)"
      by (auto simp: recuit_simule_def split: sum.splits)
    from r ne args init obtain sf where
      run: "boucle self' (nat (nombre_iterations self')) s0 = Inr sf"
      by (auto simp: recuit_simule_def split: sum.splits)
    from init run ne r args have best:
      "best = meilleure_solution sf" "bo = meilleure_objectif sf"
      "p = consommation_equipements best" by (auto simp: recuit_simule_def)
    note i = initialiser_Inr [OF init]
    have c0: "conforme devices (solution_actuelle s0)" unfolding i(11) by (rule conforme_initial)
    then have b0: "conforme devices (meilleure_solution s0)" by (simp add: i(12))
    from boucle_conforme [OF c0 b0 run] best(1) have "length best = length devices"
      by (simp add: conforme_def)
    with best boucle_objectif [OF init run] init show ?thesis by auto
  qed
  have iff: "recuit_simule self g devices pc sp sc bc tax = Inr ([], - 1, - 1) \<longleftrightarrow>
      devices = [] \<or> pc = None \<or> sp = None \<or> sc = None \<or> bc = None \<or> tax = None"
  proof
    assume r: "recuit_simule self g devices pc sp sc bc tax = Inr ([], - 1, - 1)"
    show "devices = [] \<or> pc = None \<or> sp = None \<or> sc = None \<or> bc = None \<or> tax = None"
    proof (rule ccontr)
      assume n: "\<not> ?thesis"
      then obtain a b c d e where
        "pc = Some a" "sp = Some b" "sc = Some c" "bc = Some d" "tax = Some e" by auto
      from other [OF _ this r] n show False by simp
    qed
  qed (rule sentinel)
  have returns: "\<exists>best bo self' s0.
       recuit_simule self g devices pc sp sc bc tax = Inr (best, bo, consommation_equipements best)
       \<and> length best = length devices
       \<and> initialiser (affecter self devices a b c d e) g = Inr (self', s0)
       \<and> calculer_objectif self' best = Inr bo
       \<and> (\<forall>i. Suc i < length (etats self' (nat (nombre_iterations self)) s0) \<longrightarrow>
             min (temperature_initiale self) (temperature_minimale self)
               \<le> temperature (etats self' (nat (nombre_iterations self)) s0 ! i))"
    if ne: "devices \<noteq> []" and
       args: "pc = Some a" "sp = Some b" "sc = Some c" "bc = Some d" "tax = Some e" and
       dn: "d + c * (1 - e / 100) \<noteq> 0" and
       t: "0 < temperature_initiale self" and tm: "0 < temperature_minimale self" and
       u: "nombre_iterations self \<le> 0 \<or> (\<exists>device \<in> set devices. dev_is_usable device)"
    for a b c d e
  proof -
    from objective_formula_init [OF dn] obtain self' s0 where
      init: "initialiser (affecter self devices a b c d e) g = Inr (self', s0)" by blast
    note i = initialiser_Inr [OF init]
    have d': "denominateur self' \<noteq> 0" using i(14) by (rule calculer_objectif_Inr)
    have "\<exists>sf. boucle self' (nat (nombre_iterations self')) s0 = Inr sf"
    proof (cases "nombre_iterations self \<le> 0")
      case True
      then show ?thesis by (simp add: i(4))
    next
      case False
      with u obtain k where k: "k < length devices" "dev_is_usable (devices ! k)"
        by (auto simp: in_set_conv_nth)
      then have "k < length (solution_actuelle s0)" "is_usable (solution_actuelle s0 ! k)"
        by (simp_all add: i(11))
      moreover have "0 < temperature_minimale self'" "0 < temperature s0"
        using tm t by (simp_all add: i(1,2))
      ultimately show ?thesis using d' by (intro boucle_returns)
    qed
    then obtain sf where run: "boucle self' (nat (nombre_iterations self')) s0 = Inr sf" ..
    with init ne args have
      r: "recuit_simule self g devices pc sp sc bc tax
           = Inr (meilleure_solution sf, meilleure_objectif sf,
                  consommation_equipements (meilleure_solution sf))"
      by (simp add: recuit_simule_def)
    have c0: "conforme devices (solution_actuelle s0)" unfolding i(11) by (rule conforme_initial)
    then have b0: "conforme devices (meilleure_solution s0)" by (simp add: i(12))
    from boucle_conforme [OF c0 b0 run]
    have len: "length (meilleure_solution sf) = length devices" by (simp add: conforme_def)
    have obj: "calculer_objectif self' (meilleure_solution sf) = Inr (meilleure_objectif sf)"
      using init run by (rule boucle_objectif)
    have floor: "min (temperature_initiale self) (temperature_minimale self)
                   \<le> temperature (etats self' (nat (nombre_iterations self)) s0 ! j)"
      if "Suc j < length (etats self' (nat (nombre_iterations self)) s0)" for j
      using etats_temperature_floor [OF that] by (simp add: i(1,2))
    from r len init obj floor show ?thesis by blast
  qed
  from iff returns show ?thesis by blast
qed

theorem solve_sentinel_witness:
  "recuit_simule exemple_algo exemple_alea [] (Some (- 1200)) (Some 1200) (Some 10) (Some 15)
     (Some 13) = Inr ([], - 1, - 1)
   \<and> exemple_devices \<noteq> []
   \<and> (15::real) + 10 * (1 - 13 / 100) \<noteq> 0
   \<and> 0 < temperature_initiale exemple_algo \<and> 0 < temperature_minimale exemple_algo
   \<and> 0 < facteur_refroidissement exemple_algo
   \<and> dev_is_usable (exemple_devices ! 0)
   \<and> recuit_simule exemple_algo exemple_alea exemple_devices (Some (- 1200)) (Some 1200)
        (Some 10) (Some 15) (Some 13)
       = Inr (meilleure_solution exemple_etat2, 5800 / 79,
              consommation_equipements (meilleure_solution exemple_etat2))
   \<and> length (meilleure_solution exemple_etat2) = length exemple_devices"
proof -
  have s: "recuit_simule exemple_algo exemple_alea [] (Some (- 1200)) (Some 1200) (Some 10)
     (Some 15) (Some 13) = Inr ([], - 1, - 1)"
    by (rule solve_sentinel [THEN conjunct1, THEN iffD2]) simp
  have h: "exemple_devices \<noteq> []" "(15::real) + 10 * (1 - 13 / 100) \<noteq> 0"
    "0 < temperature_initiale exemple_algo" "0 < temperature_minimale exemple_algo"
    "0 < facteur_refroidissement exemple_algo"
    "dev_is_usable (exemple_devices ! 0)"
    by (simp_all add: exemple_devices_def exemple_algo_def)
  have u: "\<exists>device \<in> set exemple_devices. dev_is_usable device"
    by (simp add: exemple_devices_def)
  from solve_sentinel [of exemple_algo exemple_alea exemple_devices "Some (- 1200)" "Some 1200"
      "Some 10" "Some 15" "Some 13", THEN conjunct2, rule_format, of "- 1200" 1200 10 15 13]
    h u
  obtain best bo where r:
    "recuit_simule exemple_algo exemple_alea exemple_devices (Some (- 1200)) (Some 1200)
        (Some 10) (Some 15) (Some 13) = Inr (best, bo, consommation_equipements best)"
    "length best = length exemple_devices"
    by auto
  have e: "recuit_simule exemple_algo exemple_alea exemple_devices (Some (- 1200)) (Some 1200)
        (Some 10) (Some 15) (Some 13)
       = Inr (meilleure_solution exemple_etat2, 5800 / 79,
              consommation_equipements (meilleure_solution exemple_etat2))"
    by (simp add: evaluation exemples eval_nat_numeral)
  with r have "best = meilleure_solution exemple_etat2" by simp
  with r(2) have "length (meilleure_solution exemple_etat2) = length exemple_devices" by simp
  with s h e show ?thesis by simp
qed

subsection \<open>The store only grows\<close>

lemma prefix_update:
  assumes "prefix m0 m" and "length m0 \<le> l"
  shows "prefix m0 (m[l := x])"
proof -
  from assms(1) obtain zs where "m = m0 @ zs" by (auto simp: prefix_def)
  with assms(2) have "m[l := x] = m0 @ zs[l - length m0 := x]"
    by (simp add: list_update_append)
  then show ?thesis by simp
qed

lemma prefix_snoc: "prefix m0 m \<Longrightarrow> prefix m0 (m @ [x])"
  by (auto simp: prefix_def)

lemma prefix_ajouter: "prefix m0 m \<Longrightarrow> length m0 \<le> l \<Longrightarrow> prefix m0 (ajouter m l a)"
  unfolding ajouter_def by (rule prefix_update)

lemma prefix_construire:
  "prefix m0 m \<Longrightarrow> length m0 \<le> l \<Longrightarrow> prefix m0 (construire m l devices)"
proof (induction devices arbitrary: m)
  case Nil
  then show ?case by simp
next
  case (Cons device devices)
  let ?d = "Dictionnaire
                 \<lparr>power_max = dev_power_max (appareil m device),
                  name = dev_name (appareil m device),
                  state = dev_is_active (appareil m device),
                  is_usable = dev_is_usable (appareil m device)\<rparr>"
  have "prefix m0 (ajouter (m @ [?d]) l (length m))"
    using Cons.prems by (intro prefix_ajouter prefix_snoc)
  from Cons.IH [OF this Cons.prems(2)] show ?case
    by (simp add: allouer_def)
qed

lemma prefix_copier:
  "prefix m0 m \<Longrightarrow> length m0 \<le> y \<Longrightarrow> prefix m0 (copier m memo y as)"
proof (induction as arbitrary: m memo)
  case Nil
  then show ?case by simp
next
  case (Cons a as)
  show ?case
  proof (cases "map_of memo a")
    case None
    have "prefix m0 (ajouter (m @ [m ! a]) y (length m))"
      using Cons.prems by (intro prefix_ajouter prefix_snoc)
    from Cons.IH [OF this Cons.prems(2)] None show ?thesis
      by (simp add: allouer_def)
  next
    case (Some b)
    have "prefix m0 (ajouter m y b)"
      using Cons.prems by (intro prefix_ajouter)
    from Cons.IH [OF this Cons.prems(2)] Some show ?thesis by simp
  qed
qed

lemma prefix_deepcopy: "prefix m (snd (deepcopy m x))"
proof -
  have "prefix m (copier (m @ [Liste []]) [(x, length m)] (length m) (liste m x))"
    by (intro prefix_copier prefix_snoc) simp_all
  then show ?thesis by (simp add: deepcopy_def allouer_def)
qed

text \<open>The elements of the list that a copy fills are new references.\<close>

lemma liste_ajouter:
  "l < length m \<Longrightarrow> liste (ajouter m l a) l = liste m l @ [a]"
  by (simp add: ajouter_def liste_def)

lemma liste_snoc: "l < length m \<Longrightarrow> liste (m @ [x]) l = liste m l"
  by (simp add: liste_def nth_append)

lemma copier_fresh:
  "y < length m \<Longrightarrow> n \<le> length m \<Longrightarrow> \<forall>b \<in> set (liste m y). n \<le> b \<Longrightarrow>
   \<forall>b \<in> snd ` set memo. n \<le> b \<Longrightarrow>
   \<forall>b \<in> set (liste (copier m memo y as) y). n \<le> b"
proof (induction as arbitrary: m memo)
  case Nil
  then show ?case by simp
next
  case (Cons a as)
  show ?case
  proof (cases "map_of memo a")
    case None
    let ?m = "ajouter (m @ [m ! a]) y (length m)"
    have y: "y < length ?m" using Cons.prems(1) by (simp add: ajouter_def)
    have n: "n \<le> length ?m" using Cons.prems(2) by (simp add: ajouter_def)
    have l: "\<forall>b \<in> set (liste ?m y). n \<le> b"
      using Cons.prems(1,2,3) by (simp add: liste_ajouter liste_snoc)
    have mm: "\<forall>b \<in> snd ` set ((a, length m) # memo). n \<le> b"
      using Cons.prems(2,4) by simp
    from Cons.IH [OF y n l mm] None show ?thesis
      by (simp add: allouer_def)
  next
    case (Some b)
    then have "(a, b) \<in> set memo" by (rule map_of_SomeD)
    then have b: "n \<le> b" using Cons.prems(4) by force
    let ?m = "ajouter m y b"
    have y: "y < length ?m" using Cons.prems(1) by (simp add: ajouter_def)
    have n: "n \<le> length ?m" using Cons.prems(2) by (simp add: ajouter_def)
    have l: "\<forall>b \<in> set (liste ?m y). n \<le> b"
      using Cons.prems(1,3) b by (simp add: liste_ajouter)
    from Cons.IH [OF y n l Cons.prems(4)] Some show ?thesis by simp
  qed
qed

lemma deepcopy_fresh:
  assumes "deepcopy m x = (y, m')"
  shows "y = length m" and "\<forall>b \<in> set (liste m' y). length m \<le> b"
proof -
  from assms have y: "y = length m"
    and m': "m' = copier (m @ [Liste []]) [(x, length m)] (length m) (liste m x)"
    by (auto simp: deepcopy_def allouer_def)
  show "y = length m" by (rule y)
  have "\<forall>b \<in> set (liste (copier (m @ [Liste []]) [(x, length m)] (length m) (liste m x))
                 (length m)). length m \<le> b"
    by (rule copier_fresh) (simp_all add: liste_def)
  with y m' show "\<forall>b \<in> set (liste m' y). length m \<le> b" by simp
qed

lemma prefix_permuter_equipement: "prefix m (snd (permuter_equipement_mem g m x))"
proof -
  obtain y m1 where d: "deepcopy m x = (y, m1)" by (cases "deepcopy m x")
  have p: "prefix m m1" using prefix_deepcopy [of m x] d by simp
  let ?usable = "filter (\<lambda>eqt. is_usable (dictionnaire m1 eqt)) (liste m1 y)"
  show ?thesis
  proof (cases "?usable = []")
    case True
    with d p show ?thesis
      by (simp add: permuter_equipement_mem_def random_choice_def)
  next
    case False
    let ?eqt = "?usable ! (shd (entiers g) mod length ?usable)"
    from False have "?eqt \<in> set ?usable" by (intro nth_mem) simp
    then have "?eqt \<in> set (liste m1 y)" by simp
    with deepcopy_fresh(2) [OF d] have "length m \<le> ?eqt" by blast
    with p have "prefix m (m1[?eqt := Dictionnaire
                          ((dictionnaire m1 ?eqt)\<lparr>state := \<not> state (dictionnaire m1 ?eqt)\<rparr>)])"
      by (rule prefix_update)
    with d False show ?thesis
      by (simp add: permuter_equipement_mem_def random_choice_def Let_def)
  qed
qed

lemma prefix_iteration: "prefix m (snd (iteration_mem self m s))"
proof -
  obtain r m1 where p: "permuter_equipement_mem (generateur s) m (solution_actuelle s) = (r, m1)"
    by (cases "permuter_equipement_mem (generateur s) m (solution_actuelle s)")
  with prefix_permuter_equipement [of m "generateur s" "solution_actuelle s"]
  have m1: "prefix m m1" by simp
  have "snd (iteration_mem self m s) = m \<or> snd (iteration_mem self m s) = m1"
    using p
    by (auto simp: iteration_mem_def Let_def split: sum.splits prod.splits if_splits)
  with m1 show ?thesis by auto
qed

lemma prefix_boucle: "prefix m (snd (boucle_mem self n m s))"
proof (induction n arbitrary: m s)
  case 0
  then show ?case by simp
next
  case (Suc n)
  obtain r m1 where i: "iteration_mem self m s = (r, m1)" by (cases "iteration_mem self m s")
  with prefix_iteration [of m self s] have m1: "prefix m m1" by simp
  show ?case
  proof (cases r)
    case (Inl e)
    with i m1 show ?thesis by simp
  next
    case (Inr s')
    from Suc.IH [of m1 s'] m1 have "prefix m (snd (boucle_mem self n m1 s'))"
      by (rule prefix_order.trans [rotated])
    with i Inr m1 show ?thesis by simp
  qed
qed

lemma prefix_affecter: "prefix m (snd (affecter_mem self m devices pc sp sc bc tax))"
proof -
  have "prefix m (construire (m @ [Liste []]) (length m) (liste m devices))"
    by (intro prefix_construire prefix_snoc) simp_all
  then show ?thesis by (simp add: affecter_mem_def allouer_def)
qed

lemma prefix_initialiser: "prefix m (snd (initialiser_mem self m g))"
  using prefix_deepcopy [of m "equipements self"]
  by (auto simp: initialiser_mem_def generer_solution_initiale_mem_def Let_def
           split: prod.splits sum.splits)

lemma prefix_recuit_simule:
  "prefix m (snd (recuit_simule_mem self g m devices pc sp sc bc tax))"
proof (cases "length (liste m devices) \<le> 0 \<or> pc = None \<or> sp = None \<or> sc = None
               \<or> bc = None \<or> tax = None")
  case True
  then show ?thesis by (auto simp: recuit_simule_mem_def allouer_def)
next
  case False
  obtain self1 m1 where
    a: "affecter_mem self m devices (the pc) (the sp) (the sc) (the bc) (the tax) = (self1, m1)"
    by (cases "affecter_mem self m devices (the pc) (the sp) (the sc) (the bc) (the tax)")
  obtain r2 m2 where i: "initialiser_mem self1 m1 g = (r2, m2)"
    by (cases "initialiser_mem self1 m1 g")
  from a prefix_affecter [of m self devices "the pc" "the sp" "the sc" "the bc" "the tax"]
  have p1: "prefix m m1" by simp
  from i prefix_initialiser [of m1 self1 g] have "prefix m1 m2" by simp
  with p1 have p2: "prefix m m2" by (rule prefix_order.trans)
  have e: "recuit_simule_mem self g m devices pc sp sc bc tax =
      (case initialiser_mem self1 m1 g of
         (Inl e, m2) \<Rightarrow> (Inl e, m2)
       | (Inr (self', s0), m2) \<Rightarrow>
           (case boucle_mem self' (nat (nombre_iterations self')) m2 s0 of
              (Inl e, m3) \<Rightarrow> (Inl e, m3)
            | (Inr s, m3) \<Rightarrow>
                (Inr (meilleure_solution s, meilleure_objectif s,
                      consommation_equipements (lire m3 (meilleure_solution s))), m3)))"
    using False a by (auto simp: recuit_simule_mem_def)
  show ?thesis
  proof (cases r2)
    case (Inl e)
    with i p2 show ?thesis by (simp add: e)
  next
    case (Inr c)
    obtain self' s0 where c: "c = (self', s0)" by (cases c)
    obtain r3 m3 where b: "boucle_mem self' (nat (nombre_iterations self')) m2 s0 = (r3, m3)"
      by (cases "boucle_mem self' (nat (nombre_iterations self')) m2 s0")
    from b prefix_boucle [of m2 self' "nat (nombre_iterations self')" s0]
    have "prefix m2 m3" by simp
    with p2 have "prefix m m3" by (rule prefix_order.trans)
    with i Inr c b show ?thesis
      by (cases r3) (simp_all add: e)
  qed
qed

lemmas evaluation_mem =
  recuit_simule_mem_def initialiser_mem_def affecter_mem_def generer_solution_initiale_mem_def
  iteration_mem_def permuter_equipement_mem_def deepcopy_def allouer_def ajouter_def
  liste_def dictionnaire_def appareil_def lire_def
  calculer_objectif_def consommation_equipements_def fdiv_def Let_def
  random_choice_def random_random_def math_exp_def
  exemple_memoire_def exemple_solveur_def exemple_alea_def

text \<open>
  C10. A call changes no object that exists when it starts: the store after the call
  begins with the store before it. In particular the list of the caller has the same
  elements and every device has the same attributes after the call, whether the call
  returns or raises.
\<close>

theorem devices_not_mutated:
  "(let m' = snd (recuit_simule_mem self g m devices pc sp sc bc tax) in
      prefix m m'
    \<and> (\<forall>a < length m. m' ! a = m ! a)
    \<and> (devices < length m \<longrightarrow> liste m' devices = liste m devices)
    \<and> (\<forall>d \<in> set (liste m devices). d < length m \<longrightarrow> appareil m' d = appareil m d))"
proof -
  define m' where "m' = snd (recuit_simule_mem self g m devices pc sp sc bc tax)"
  have p: "prefix m m'" unfolding m'_def by (rule prefix_recuit_simule)
  then obtain zs where "m' = m @ zs" by (auto simp: prefix_def)
  then have n: "m' ! a = m ! a" if "a < length m" for a
    using that by (simp add: nth_append)
  then have "devices < length m \<longrightarrow> liste m' devices = liste m devices"
    and "\<forall>d \<in> set (liste m devices). d < length m \<longrightarrow> appareil m' d = appareil m d"
    by (simp_all add: liste_def appareil_def)
  with p n show ?thesis unfolding Let_def m'_def [symmetric] by blast
qed

theorem devices_not_mutated_witness:
  "(2::nat) < length exemple_memoire
   \<and> 0 \<in> set (liste exemple_memoire 2) \<and> (0::nat) < length exemple_memoire
   \<and> fst (recuit_simule_mem exemple_solveur exemple_alea exemple_memoire 2 (Some (- 1200))
            (Some 1200) (Some 10) (Some 15) (Some 13)) = Inr (9, 5800 / 79, 1000)
   \<and> liste (snd (recuit_simule_mem exemple_solveur exemple_alea exemple_memoire 2
                    (Some (- 1200)) (Some 1200) (Some 10) (Some 15) (Some 13))) 2
       = liste exemple_memoire 2
   \<and> appareil (snd (recuit_simule_mem exemple_solveur exemple_alea exemple_memoire 2
                       (Some (- 1200)) (Some 1200) (Some 10) (Some 15) (Some 13))) 0
       = appareil exemple_memoire 0"
proof -
  have h: "(2::nat) < length exemple_memoire" "0 \<in> set (liste exemple_memoire 2)"
    "(0::nat) < length exemple_memoire"
    by (simp_all add: exemple_memoire_def liste_def)
  note c = devices_not_mutated [where m = exemple_memoire and self = exemple_solveur
      and g = exemple_alea and devices = 2 and pc = "Some (- 1200)" and sp = "Some 1200"
      and sc = "Some 10" and bc = "Some 15" and tax = "Some 13", unfolded Let_def]
  note c3 = c [THEN conjunct2, THEN conjunct2, THEN conjunct1, rule_format, OF h(1)]
  note c4 = c [THEN conjunct2, THEN conjunct2, THEN conjunct2, rule_format, OF h(2) h(3)]
  have r: "fst (recuit_simule_mem exemple_solveur exemple_alea exemple_memoire 2 (Some (- 1200))
            (Some 1200) (Some 10) (Some 15) (Some 13)) = Inr (9, 5800 / 79, 1000)"
    by (simp add: evaluation_mem eval_nat_numeral)
  from h r c3 c4 show ?thesis by simp
qed

subsection \<open>What a deep copy builds\<close>

lemma copier_exact:
  "distinct as \<Longrightarrow> set as \<inter> fst ` set memo = {} \<Longrightarrow> y < length m \<Longrightarrow>
   \<forall>a \<in> set as. a < length m \<and> a \<noteq> y \<Longrightarrow> m ! y = Liste bs \<Longrightarrow>
   copier m memo y as =
     (m @ map ((!) m) as)[y := Liste (bs @ [length m ..< length m + length as])]"
proof (induction as arbitrary: m memo bs)
  case Nil
  then have "m[y := Liste bs] = m" by (metis list_update_id)
  then show ?case by simp
next
  case (Cons a as)
  let ?m1 = "m @ [m ! a]"
  let ?m2 = "ajouter ?m1 y (length m)"
  have none: "map_of memo a = None"
    using Cons.prems(2) by (auto simp: map_of_eq_None_iff)
  have l1: "liste ?m1 y = bs"
    using Cons.prems(3,5) by (simp add: liste_def nth_append)
  have m2: "?m2 = ?m1[y := Liste (bs @ [length m])]"
    by (simp add: ajouter_def l1)
  have p1: "distinct as" using Cons.prems(1) by simp
  have p2: "set as \<inter> fst ` set ((a, length m) # memo) = {}"
    using Cons.prems(1,2) by auto
  have p3: "y < length ?m2" using Cons.prems(3) by (simp add: m2)
  have p4: "\<forall>a' \<in> set as. a' < length ?m2 \<and> a' \<noteq> y"
    using Cons.prems(4) by (auto simp: m2)
  have p5: "?m2 ! y = Liste (bs @ [length m])"
    using Cons.prems(3) by (simp add: m2)
  have same: "map ((!) ?m2) as = map ((!) m) as"
  proof (rule map_cong [OF refl])
    fix a' assume "a' \<in> set as"
    with Cons.prems(4) have "a' < length m" "a' \<noteq> y" by auto
    then show "?m2 ! a' = m ! a'" by (simp add: m2 nth_append)
  qed
  have len: "length ?m2 = Suc (length m)" by (simp add: m2)
  have upt: "[length m] @ [Suc (length m) ..< Suc (length m) + length as]
               = [length m ..< length m + length (a # as)]"
    by (simp add: upt_rec)
  have "copier m memo y (a # as) = copier ?m2 ((a, length m) # memo) y as"
    using none by (simp add: allouer_def)
  also have "\<dots> = (?m2 @ map ((!) m) as)
                     [y := Liste ((bs @ [length m]) @ [length ?m2 ..< length ?m2 + length as])]"
    using Cons.IH [OF p1 p2 p3 p4 p5] same by simp
  also have "\<dots> = (?m1 @ map ((!) m) as)
                     [y := Liste (bs @ [length m ..< length m + length (a # as)])]"
    using Cons.prems(3) upt by (simp add: m2 len list_update_append)
  finally show ?case by simp
qed

lemma deepcopy_exact:
  assumes "solution_ok m x"
  shows "deepcopy m x =
           (length m,
            m @ Liste [Suc (length m) ..< Suc (length m) + length (liste m x)]
                # map ((!) m) (liste m x))"
proof -
  from assms obtain as where as: "x < length m" "m ! x = Liste as" "distinct as"
    "\<forall>a \<in> set as. a < length m \<and> (\<exists>d. m ! a = Dictionnaire d)"
    by (auto simp: solution_ok_def)
  have l: "liste m x = as" using as(2) by (simp add: liste_def)
  let ?m1 = "m @ [Liste []]"
  have x: "x \<notin> set as" using as(2,4) by auto
  have same: "map ((!) ?m1) as = map ((!) m) as"
    using as(4) by (auto simp: nth_append)
  have "copier ?m1 [(x, length m)] (length m) as =
          (?m1 @ map ((!) ?m1) as)
          [length m := Liste ([] @ [length ?m1 ..< length ?m1 + length as])]"
    using as(3,4) x by (intro copier_exact) auto
  also have "\<dots> = m @ Liste [Suc (length m) ..< Suc (length m) + length as] # map ((!) m) as"
    by (simp add: same list_update_append)
  finally show ?thesis by (simp add: deepcopy_def allouer_def l)
qed

lemma prefix_nth: "prefix m m' \<Longrightarrow> a < length m \<Longrightarrow> m' ! a = m ! a"
  by (auto simp: prefix_def nth_append)

lemma prefix_length: "prefix m m' \<Longrightarrow> length m \<le> length m'"
  by (auto simp: prefix_def)

lemma prefix_solution_ok:
  assumes "prefix m m'" and "solution_ok m l"
  shows "solution_ok m' l" and "lire m' l = lire m l" and "liste m' l = liste m l"
proof -
  from assms(2) obtain as where as: "l < length m" "m ! l = Liste as" "distinct as"
    "\<forall>a \<in> set as. a < length m \<and> (\<exists>d. m ! a = Dictionnaire d)"
    by (auto simp: solution_ok_def)
  have l: "m' ! l = Liste as" using prefix_nth [OF assms(1) as(1)] as(2) by simp
  have e: "m' ! a = m ! a" if "a \<in> set as" for a
    using prefix_nth [OF assms(1)] as(4) that by simp
  show "solution_ok m' l"
    unfolding solution_ok_def using as l e prefix_length [OF assms(1)]
    by (auto intro!: exI [of _ as])
  show "liste m' l = liste m l" using l as(2) by (simp add: liste_def)
  show "lire m' l = lire m l"
    using l as(2) e by (simp add: lire_def liste_def dictionnaire_def)
qed

subsection \<open>The neighbour on the store and on values\<close>

lemma upt_shift: "[Suc n ..< Suc n + k] = map (\<lambda>i. Suc (n + i)) [0..<k]"
  by (induction k) simp_all

lemma deepcopy_shift:
  assumes "solution_ok m x"
  shows "deepcopy m x =
           (length m,
            m @ Liste (map (\<lambda>i. Suc (length m + i)) [0..<length (liste m x)])
                # map ((!) m) (liste m x))"
  using deepcopy_exact [OF assms] unfolding upt_shift .

lemma copy_nth:
  assumes "i < length as"
  shows "(m @ Liste idx # map ((!) m) as) ! Suc (length m + i) = m ! (as ! i)"
  using assms by (simp add: nth_append)

lemma copy_dictionnaire:
  assumes "i < length (liste m x)"
  shows "dictionnaire (m @ Liste idx # map ((!) m) (liste m x)) (Suc (length m + i))
           = lire m x ! i"
  using copy_nth [OF assms, of m idx] assms by (simp add: dictionnaire_def lire_def)

lemma copy_lire:
  "lire (m @ Liste (map (\<lambda>i. Suc (length m + i)) [0..<length (liste m x)])
             # map ((!) m) (liste m x)) (length m) = lire m x"
proof -
  let ?as = "liste m x"
  let ?idx = "map (\<lambda>i. Suc (length m + i)) [0..<length ?as]"
  let ?m1 = "m @ Liste ?idx # map ((!) m) ?as"
  have l1: "liste ?m1 (length m) = ?idx" by (simp add: liste_def)
  have "map (dictionnaire ?m1) ?idx = map (\<lambda>i. lire m x ! i) [0..<length ?as]"
    by (simp add: copy_dictionnaire)
  also have "\<dots> = lire m x"
    using map_nth [of "lire m x"] by (simp add: lire_def)
  finally show ?thesis by (simp add: lire_def l1)
qed

lemma copy_solution_ok:
  assumes ok: "solution_ok m x"
  shows "solution_ok (m @ Liste (map (\<lambda>i. Suc (length m + i)) [0..<length (liste m x)])
             # map ((!) m) (liste m x)) (length m)"
proof -
  let ?as = "liste m x"
  let ?idx = "map (\<lambda>i. Suc (length m + i)) [0..<length ?as]"
  let ?m1 = "m @ Liste ?idx # map ((!) m) ?as"
  from ok obtain as where as: "m ! x = Liste as"
    "\<forall>a \<in> set as. a < length m \<and> (\<exists>d. m ! a = Dictionnaire d)"
    by (auto simp: solution_ok_def)
  then have l: "?as = as" by (simp add: liste_def)
  have dist: "distinct ?idx" by (simp add: distinct_map inj_on_def)
  have el: "a < length ?m1 \<and> (\<exists>d. ?m1 ! a = Dictionnaire d)" if "a \<in> set ?idx" for a
  proof -
    from that obtain i where i: "a = Suc (length m + i)" "i < length ?as" by auto
    then have "?as ! i \<in> set as" using l by simp
    with as(2) obtain d where "m ! (?as ! i) = Dictionnaire d" by blast
    with copy_nth [OF i(2), of m ?idx] i show ?thesis by simp
  qed
  have "?m1 ! length m = Liste ?idx" by simp
  with dist el show ?thesis
    unfolding solution_ok_def by (intro conjI exI [of _ ?idx]) simp_all
qed

text \<open>
  The usable dictionaries of the copy are the usable positions of the solution, shifted.
\<close>

lemma copy_usable:
  "filter (\<lambda>eqt. is_usable (dictionnaire (m @ Liste idx # map ((!) m) (liste m x)) eqt))
     (map (\<lambda>i. Suc (length m + i)) [0..<length (liste m x)])
   = map (\<lambda>i. Suc (length m + i))
       (filter (\<lambda>i. is_usable (lire m x ! i)) [0..<length (lire m x)])"
proof -
  let ?as = "liste m x"
  let ?m1 = "m @ Liste idx # map ((!) m) ?as"
  have "filter (\<lambda>i. is_usable (dictionnaire ?m1 (Suc (length m + i)))) [0..<length ?as]
        = filter (\<lambda>i. is_usable (lire m x ! i)) [0..<length ?as]"
    by (rule filter_cong [OF refl]) (simp add: copy_dictionnaire)
  then show ?thesis
    by (simp add: filter_map comp_def lire_def)
qed

lemma permuter_equipement_mem_exact:
  assumes ok: "solution_ok m x"
  shows "permuter_equipement_mem g m x =
    (let m1 = m @ Liste (map (\<lambda>i. Suc (length m + i)) [0..<length (liste m x)])
                    # map ((!) m) (liste m x);
         usable = filter (\<lambda>i. is_usable (lire m x ! i)) [0..<length (lire m x)]
     in if usable = [] then (Inl IndexError, m1)
        else (let k = usable ! (shd (entiers g) mod length usable)
              in (Inr (length m, g\<lparr>entiers := stl (entiers g)\<rparr>),
                  m1[Suc (length m + k) :=
                       Dictionnaire ((lire m x ! k)\<lparr>state := \<not> state (lire m x ! k)\<rparr>)])))"
proof -
  let ?as = "liste m x"
  let ?idx = "map (\<lambda>i. Suc (length m + i)) [0..<length ?as]"
  let ?m1 = "m @ Liste ?idx # map ((!) m) ?as"
  let ?usable = "filter (\<lambda>i. is_usable (lire m x ! i)) [0..<length (lire m x)]"
  let ?um = "filter (\<lambda>eqt. is_usable (dictionnaire ?m1 eqt)) (liste ?m1 (length m))"
  have l1: "liste ?m1 (length m) = ?idx" by (simp add: liste_def)
  have um: "?um = map (\<lambda>i. Suc (length m + i)) ?usable"
    unfolding l1 by (rule copy_usable)
  show ?thesis
  proof (cases "?usable = []")
    case True
    with um have "?um = []" by simp
    with True show ?thesis
      by (simp add: permuter_equipement_mem_def deepcopy_shift [OF ok] random_choice_def)
  next
    case False
    let ?k = "?usable ! (shd (entiers g) mod length ?usable)"
    from False have "?k \<in> set ?usable" by (intro nth_mem) simp
    then have k: "?k < length ?as" by (simp add: lire_def)
    from False um have ne: "?um \<noteq> []" by simp
    have len: "length ?um = length ?usable" using um by simp
    have e: "?um ! (shd (entiers g) mod length ?um) = Suc (length m + ?k)"
      using False unfolding len by (subst um) (simp add: nth_map)
    have d: "dictionnaire ?m1 (Suc (length m + ?k)) = lire m x ! ?k"
      using k by (rule copy_dictionnaire)
    have "permuter_equipement_mem g m x =
            (Inr (length m, g\<lparr>entiers := stl (entiers g)\<rparr>),
             ?m1[?um ! (shd (entiers g) mod length ?um) :=
                   Dictionnaire
                     ((dictionnaire ?m1 (?um ! (shd (entiers g) mod length ?um)))
                        \<lparr>state := \<not> state (dictionnaire ?m1
                                               (?um ! (shd (entiers g) mod length ?um)))\<rparr>)])"
      using ne
      by (simp add: permuter_equipement_mem_def deepcopy_shift [OF ok] random_choice_def Let_def)
    also have "\<dots> = (Inr (length m, g\<lparr>entiers := stl (entiers g)\<rparr>),
             ?m1[Suc (length m + ?k) :=
                   Dictionnaire ((lire m x ! ?k)\<lparr>state := \<not> state (lire m x ! ?k)\<rparr>)])"
      unfolding e d ..
    finally show ?thesis using False by (simp add: Let_def)
  qed
qed

lemma copy_update:
  assumes "k < length (liste m x)"
  shows "lire ((m @ Liste (map (\<lambda>i. Suc (length m + i)) [0..<length (liste m x)])
                  # map ((!) m) (liste m x))
               [Suc (length m + k) := Dictionnaire d]) (length m)
         = (lire m x)[k := d]"
proof -
  let ?as = "liste m x"
  let ?idx = "map (\<lambda>i. Suc (length m + i)) [0..<length ?as]"
  let ?m1 = "m @ Liste ?idx # map ((!) m) ?as"
  let ?m2 = "?m1[Suc (length m + k) := Dictionnaire d]"
  have l2: "liste ?m2 (length m) = ?idx" by (simp add: liste_def)
  have d: "dictionnaire ?m2 (Suc (length m + i)) = (lire m x)[k := d] ! i"
    if "i < length ?as" for i
  proof (cases "i = k")
    case True
    with that show ?thesis by (simp add: dictionnaire_def lire_def)
  next
    case False
    then have "dictionnaire ?m2 (Suc (length m + i)) = dictionnaire ?m1 (Suc (length m + i))"
      by (simp add: dictionnaire_def)
    with copy_dictionnaire [OF that, of ?idx] False show ?thesis by simp
  qed
  have "map (dictionnaire ?m2) ?idx = map (\<lambda>i. (lire m x)[k := d] ! i) [0..<length ?as]"
    by (simp add: d)
  also have "\<dots> = (lire m x)[k := d]"
    using map_nth [of "(lire m x)[k := d]"] by (simp add: lire_def)
  finally show ?thesis by (simp add: lire_def l2)
qed

lemma solution_ok_update:
  assumes "solution_ok m l" and "a \<noteq> l"
  shows "solution_ok (m[a := Dictionnaire d]) l"
proof -
  from assms(1) obtain as where as: "l < length m" "m ! l = Liste as" "distinct as"
    "\<forall>a \<in> set as. a < length m \<and> (\<exists>d. m ! a = Dictionnaire d)"
    by (auto simp: solution_ok_def)
  have "\<exists>d'. m[a := Dictionnaire d] ! b = Dictionnaire d'" if "b \<in> set as" for b
    using as(4) that by (cases "b = a") auto
  with as assms(2) show ?thesis
    unfolding solution_ok_def by (intro conjI exI [of _ as]) auto
qed

lemma permuter_equipement_value:
  "permuter_equipement g solution =
    (let usable = filter (\<lambda>i. is_usable (solution ! i)) [0..<length solution]
     in if usable = [] then Inl IndexError
        else (let k = usable ! (shd (entiers g) mod length usable)
              in Inr (solution[k := (solution ! k)\<lparr>state := \<not> state (solution ! k)\<rparr>],
                      g\<lparr>entiers := stl (entiers g)\<rparr>)))"
  by (simp add: permuter_equipement_def random_choice_def Let_def)

lemma permuter_equipement_mem_refines:
  assumes ok: "solution_ok m x"
  shows "case permuter_equipement_mem g m x of
           (Inl e, m') \<Rightarrow> permuter_equipement g (lire m x) = Inl e
         | (Inr (y, g'), m') \<Rightarrow>
             permuter_equipement g (lire m x) = Inr (lire m' y, g')
             \<and> solution_ok m' y \<and> y = length m"
proof -
  let ?as = "liste m x"
  let ?idx = "map (\<lambda>i. Suc (length m + i)) [0..<length ?as]"
  let ?m1 = "m @ Liste ?idx # map ((!) m) ?as"
  let ?usable = "filter (\<lambda>i. is_usable (lire m x ! i)) [0..<length (lire m x)]"
  show ?thesis
  proof (cases "?usable = []")
    case True
    then show ?thesis
      by (simp add: permuter_equipement_mem_exact [OF ok] permuter_equipement_value)
  next
    case False
    let ?k = "?usable ! (shd (entiers g) mod length ?usable)"
    let ?d = "(lire m x ! ?k)\<lparr>state := \<not> state (lire m x ! ?k)\<rparr>"
    from False have "?k \<in> set ?usable" by (intro nth_mem) simp
    then have k: "?k < length ?as" by (simp add: lire_def)
    have l: "lire (?m1[Suc (length m + ?k) := Dictionnaire ?d]) (length m) = (lire m x)[?k := ?d]"
      using k by (rule copy_update)
    have s: "solution_ok (?m1[Suc (length m + ?k) := Dictionnaire ?d]) (length m)"
      by (rule solution_ok_update [OF copy_solution_ok [OF ok]]) simp
    from False l s show ?thesis
      by (simp add: permuter_equipement_mem_exact [OF ok] permuter_equipement_value Let_def)
  qed
qed

lemma permuter_equipement_mem_liste:
  assumes ok: "solution_ok m x"
    and p: "permuter_equipement_mem g m x = (r, m')" and r: "r = Inr (y, g')"
  shows "liste m' y = map (\<lambda>i. Suc (length m + i)) [0..<length (liste m x)]"
proof -
  let ?usable = "filter (\<lambda>i. is_usable (lire m x ! i)) [0..<length (lire m x)]"
  from p r have ne: "?usable \<noteq> []"
    by (auto simp: permuter_equipement_mem_exact [OF ok] Let_def split: if_splits)
  with p r show ?thesis
    by (auto simp: permuter_equipement_mem_exact [OF ok] Let_def liste_def)
qed

lemmas evaluation_solution =
  permuter_equipement_mem_def deepcopy_def allouer_def ajouter_def liste_def
  dictionnaire_def lire_def Let_def random_choice_def exemple_alea_def
  exemple_memoire_solution_def exemple_memoire_fixe_def

text \<open>
  C8 fails on the code: on a solution whose only dictionary is not usable the neighbour
  generation raises \<^verbatim>\<open>IndexError\<close>, not an error of the name
  \<^verbatim>\<open>NoUsableDevice\<close>.
\<close>

theorem no_usable_counterexample:
  "solution_ok exemple_memoire_fixe 1
   \<and> \<not> is_usable (lire exemple_memoire_fixe 1 ! 0)
   \<and> length (lire exemple_memoire_fixe 1) = 1
   \<and> fst (permuter_equipement_mem exemple_alea exemple_memoire_fixe 1) = Inl IndexError
   \<and> fst (permuter_equipement_mem exemple_alea exemple_memoire_fixe 1) \<noteq> Inl NoUsableDevice"
  by (simp add: solution_ok_def evaluation_solution)

text \<open>
  C8 as the code has it. On a solution without a usable dictionary the neighbour generation
  raises \<^verbatim>\<open>IndexError\<close>, the exception of \<^verbatim>\<open>random.choice\<close> on an empty list;
  no error of the name \<^verbatim>\<open>NoUsableDevice\<close> exists. Otherwise it returns a new list of
  new dictionaries which reads as the given solution with the state of one usable
  dictionary flipped, and the given solution reads as before.
\<close>

theorem neighbour_copy:
  assumes ok: "solution_ok m solution"
  shows "(let sol = lire m solution; r = fst (permuter_equipement_mem g m solution);
              m' = snd (permuter_equipement_mem g m solution) in
          prefix m m' \<and> lire m' solution = sol
        \<and> ((\<forall>i < length sol. \<not> is_usable (sol ! i)) \<longrightarrow> r = Inl IndexError)
        \<and> ((\<exists>i < length sol. is_usable (sol ! i)) \<longrightarrow>
             (\<exists>voisin g' k.
                r = Inr (voisin, g') \<and> length m \<le> voisin \<and> solution_ok m' voisin
              \<and> (\<forall>a \<in> set (liste m' voisin). length m \<le> a)
              \<and> k < length sol \<and> is_usable (sol ! k)
              \<and> lire m' voisin = sol[k := (sol ! k)\<lparr>state := \<not> state (sol ! k)\<rparr>])))"
proof -
  define sol where "sol = lire m solution"
  define r where "r = fst (permuter_equipement_mem g m solution)"
  define m' where "m' = snd (permuter_equipement_mem g m solution)"
  have rm: "permuter_equipement_mem g m solution = (r, m')" by (simp add: r_def m'_def)
  have p: "prefix m m'" unfolding m'_def by (rule prefix_permuter_equipement)
  have same: "lire m' solution = sol"
    unfolding sol_def using p ok by (rule prefix_solution_ok)
  note ref = permuter_equipement_mem_refines [OF ok, of g, unfolded rm, folded sol_def]
  have none: "r = Inl IndexError" if "\<forall>i < length sol. \<not> is_usable (sol ! i)"
  proof -
    from that have "permuter_equipement g sol = Inl IndexError"
      by (rule permuter_equipement_none)
    with ref show ?thesis by (cases r) auto
  qed
  have some: "\<exists>voisin g' k.
                r = Inr (voisin, g') \<and> length m \<le> voisin \<and> solution_ok m' voisin
              \<and> (\<forall>a \<in> set (liste m' voisin). length m \<le> a)
              \<and> k < length sol \<and> is_usable (sol ! k)
              \<and> lire m' voisin = sol[k := (sol ! k)\<lparr>state := \<not> state (sol ! k)\<rparr>]"
    if "\<exists>i < length sol. is_usable (sol ! i)"
  proof -
    from that obtain i where "i < length sol" "is_usable (sol ! i)" by blast
    from permuter_equipement_usable [OF this, of g] obtain v g' where
      v: "permuter_equipement g sol = Inr (v, g')" by blast
    with ref obtain voisin where r: "r = Inr (voisin, g')" and
      vo: "v = lire m' voisin" "solution_ok m' voisin" "voisin = length m"
      by (cases r) auto
    from permuter_equipement_Inr [OF v] vo(1) obtain k where k:
      "k < length sol" "is_usable (sol ! k)"
      "lire m' voisin = sol[k := (sol ! k)\<lparr>state := \<not> state (sol ! k)\<rparr>]"
      by auto
    have "liste m' voisin = map (\<lambda>i. Suc (length m + i)) [0..<length (liste m solution)]"
      using rm r by (rule permuter_equipement_mem_liste [OF ok])
    then have "\<forall>a \<in> set (liste m' voisin). length m \<le> a" by auto
    with r vo k show ?thesis by auto
  qed
  from p same none some show ?thesis
    unfolding Let_def sol_def [symmetric] r_def [symmetric] m'_def [symmetric] by blast
qed

theorem neighbour_copy_witness:
  "solution_ok exemple_memoire_solution 2
   \<and> 0 < length (lire exemple_memoire_solution 2)
   \<and> is_usable (lire exemple_memoire_solution 2 ! 0)
   \<and> fst (permuter_equipement_mem exemple_alea exemple_memoire_solution 2)
       = Inr (3, exemple_alea)
   \<and> lire (snd (permuter_equipement_mem exemple_alea exemple_memoire_solution 2)) 3
       = [\<lparr>power_max = 1000, name = ''A'', state = True, is_usable = True\<rparr>,
          \<lparr>power_max = 500, name = ''B'', state = False, is_usable = False\<rparr>]
   \<and> lire (snd (permuter_equipement_mem exemple_alea exemple_memoire_solution 2)) 2
       = lire exemple_memoire_solution 2"
proof -
  have ok: "solution_ok exemple_memoire_solution 2"
    by (simp add: solution_ok_def exemple_memoire_solution_def)
  have h: "0 < length (lire exemple_memoire_solution 2)"
    "is_usable (lire exemple_memoire_solution 2 ! 0)"
    by (simp_all add: evaluation_solution)
  note c = neighbour_copy [OF ok, of exemple_alea, unfolded Let_def]
  note c2 = c [THEN conjunct2, THEN conjunct1]
  have e: "fst (permuter_equipement_mem exemple_alea exemple_memoire_solution 2)
       = Inr (3, exemple_alea)"
    "lire (snd (permuter_equipement_mem exemple_alea exemple_memoire_solution 2)) 3
       = [\<lparr>power_max = 1000, name = ''A'', state = True, is_usable = True\<rparr>,
          \<lparr>power_max = 500, name = ''B'', state = False, is_usable = False\<rparr>]"
    by (simp_all add: evaluation_solution eval_nat_numeral)
  from ok h c2 e show ?thesis by simp
qed

subsection \<open>The methods on values describe the methods on the store\<close>

lemma calculer_objectif_valeur_algo:
  "calculer_objectif (valeur_algo m self) solution = calculer_objectif self solution"
  by (simp add: calculer_objectif_def valeur_algo_def Let_def cong: sum.case_cong)

lemma iteration_mem_refines:
  assumes c: "solution_ok m (solution_actuelle s)"
    and b: "solution_ok m (meilleure_solution s)"
  shows "case iteration_mem self m s of
           (Inl e, m') \<Rightarrow> iteration (valeur_algo m0 self) (valeur_etat m s) = Inl e
         | (Inr s', m') \<Rightarrow>
             iteration (valeur_algo m0 self) (valeur_etat m s) = Inr (valeur_etat m' s')
             \<and> solution_ok m' (solution_actuelle s') \<and> solution_ok m' (meilleure_solution s')"
proof -
  obtain r m1 where p: "permuter_equipement_mem (generateur s) m (solution_actuelle s) = (r, m1)"
    by (cases "permuter_equipement_mem (generateur s) m (solution_actuelle s)")
  from prefix_permuter_equipement [of m "generateur s" "solution_actuelle s"] p
  have pre: "prefix m m1" by simp
  note pc = prefix_solution_ok [OF pre c] and pb = prefix_solution_ok [OF pre b]
  note ref = permuter_equipement_mem_refines [OF c, of "generateur s", unfolded p]
  have f: "facteur_refroidissement (valeur_algo m0 self) = facteur_refroidissement self"
    by (simp add: valeur_algo_def)
  have v: "solution_actuelle (valeur_etat m s) = lire m (solution_actuelle s)"
    "meilleure_solution (valeur_etat m s) = lire m (meilleure_solution s)"
    "generateur (valeur_etat m s) = generateur s" "temperature (valeur_etat m s) = temperature s"
    by (simp_all add: valeur_etat_def)
  show ?thesis
  proof (cases "calculer_objectif self (lire m (solution_actuelle s))")
    case (Inl e)
    then show ?thesis
      by (simp add: iteration_mem_def iteration_def calculer_objectif_valeur_algo v)
  next
    case oa: (Inr objectif_actuel)
    show ?thesis
    proof (cases r)
      case (Inl e)
      with ref have "permuter_equipement (generateur s) (lire m (solution_actuelle s)) = Inl e"
        by simp
      with oa p Inl show ?thesis
        by (simp add: iteration_mem_def iteration_def calculer_objectif_valeur_algo v)
    next
      case (Inr yg)
      obtain y g1 where yg: "yg = (y, g1)" by (cases yg)
      from ref Inr yg have pv:
        "permuter_equipement (generateur s) (lire m (solution_actuelle s)) = Inr (lire m1 y, g1)"
        and oy: "solution_ok m1 y" by auto
      have e: "valeur_etat m1 (s\<lparr>solution_actuelle := y, meilleure_solution := y,
                 meilleure_objectif := ov, temperature := t, generateur := g\<rparr>)
               = (valeur_etat m s)\<lparr>solution_actuelle := lire m1 y,
                   meilleure_solution := lire m1 y, meilleure_objectif := ov,
                   temperature := t, generateur := g\<rparr>"
         "valeur_etat m1 (s\<lparr>solution_actuelle := y, temperature := t, generateur := g\<rparr>)
               = (valeur_etat m s)\<lparr>solution_actuelle := lire m1 y,
                   temperature := t, generateur := g\<rparr>"
         "valeur_etat m1 (s\<lparr>temperature := t, generateur := g\<rparr>)
               = (valeur_etat m s)\<lparr>temperature := t, generateur := g\<rparr>"
        for ov t g
        by (simp_all add: valeur_etat_def pc(2) pb(2))
      from oa p Inr yg pv oy pc(1) pb(1) show ?thesis
        by (auto simp: iteration_mem_def iteration_def calculer_objectif_valeur_algo v f e
              pb(2) Let_def split: sum.splits prod.splits)
    qed
  qed
qed

lemma boucle_mem_refines:
  "solution_ok m (solution_actuelle s) \<Longrightarrow> solution_ok m (meilleure_solution s) \<Longrightarrow>
   (case boucle_mem self n m s of
      (Inl e, m') \<Rightarrow> boucle (valeur_algo m0 self) n (valeur_etat m s) = Inl e
    | (Inr s', m') \<Rightarrow>
        boucle (valeur_algo m0 self) n (valeur_etat m s) = Inr (valeur_etat m' s')
        \<and> solution_ok m' (meilleure_solution s'))"
proof (induction n arbitrary: m s)
  case 0
  then show ?case by simp
next
  case (Suc n)
  obtain r m1 where i: "iteration_mem self m s = (r, m1)" by (cases "iteration_mem self m s")
  note ref = iteration_mem_refines [OF Suc.prems, where self = self and ?m0.0 = m0,
      unfolded i]
  have t: "temperature_minimale (valeur_algo m0 self) = temperature_minimale self"
    by (simp add: valeur_algo_def)
  show ?case
  proof (cases r)
    case (Inl e)
    with ref i show ?thesis by simp
  next
    case (Inr s')
    with ref have v: "iteration (valeur_algo m0 self) (valeur_etat m s) = Inr (valeur_etat m1 s')"
      and ok: "solution_ok m1 (solution_actuelle s')" "solution_ok m1 (meilleure_solution s')"
      by simp_all
    have ts: "temperature (valeur_etat m1 s') = temperature s'" by (simp add: valeur_etat_def)
    show ?thesis
    proof (cases "temperature s' < temperature_minimale self")
      case True
      with i Inr v ok show ?thesis by (simp add: t ts)
    next
      case False
      with i Inr v Suc.IH [OF ok] show ?thesis
        by (auto simp: t ts split: prod.splits sum.splits)
    qed
  qed
qed

subsection \<open>What the loop over the devices builds\<close>

lemma construire_exact:
  "y < length m \<Longrightarrow> m ! y = Liste bs \<Longrightarrow> \<forall>d \<in> set ds. d < length m \<and> d \<noteq> y \<Longrightarrow>
   construire m y ds =
     (m @ map (\<lambda>d. Dictionnaire
                     \<lparr>power_max = dev_power_max (appareil m d), name = dev_name (appareil m d),
                      state = dev_is_active (appareil m d),
                      is_usable = dev_is_usable (appareil m d)\<rparr>) ds)
     [y := Liste (bs @ [length m ..< length m + length ds])]"
proof (induction ds arbitrary: m bs)
  case Nil
  then have "m[y := Liste bs] = m" by (metis list_update_id)
  then show ?case by simp
next
  case (Cons d ds)
  let ?f = "\<lambda>m d. Dictionnaire
                     \<lparr>power_max = dev_power_max (appareil m d), name = dev_name (appareil m d),
                      state = dev_is_active (appareil m d),
                      is_usable = dev_is_usable (appareil m d)\<rparr>"
  let ?m1 = "m @ [?f m d]"
  let ?m2 = "ajouter ?m1 y (length m)"
  have l1: "liste ?m1 y = bs"
    using Cons.prems(1,2) by (simp add: liste_def nth_append)
  have m2: "?m2 = ?m1[y := Liste (bs @ [length m])]"
    by (simp add: ajouter_def l1)
  have p1: "y < length ?m2" using Cons.prems(1) by (simp add: m2)
  have p2: "?m2 ! y = Liste (bs @ [length m])" using Cons.prems(1) by (simp add: m2)
  have p3: "\<forall>d' \<in> set ds. d' < length ?m2 \<and> d' \<noteq> y"
    using Cons.prems(3) by (auto simp: m2)
  have same: "map (?f ?m2) ds = map (?f m) ds"
  proof (rule map_cong [OF refl])
    fix d' assume "d' \<in> set ds"
    with Cons.prems(3) have "d' < length m" "d' \<noteq> y" by auto
    then have "?m2 ! d' = m ! d'" by (simp add: m2 nth_append)
    then have "appareil ?m2 d' = appareil m d'" by (simp only: appareil_def)
    then show "?f ?m2 d' = ?f m d'" by simp
  qed
  have len: "length ?m2 = Suc (length m)" by (simp add: m2)
  have upt: "[length m] @ [Suc (length m) ..< Suc (length m) + length ds]
               = [length m ..< length m + length (d # ds)]"
    by (simp add: upt_rec)
  have "construire m y (d # ds) = construire ?m2 y ds"
    by (simp add: allouer_def)
  also have "\<dots> = (?m2 @ map (?f m) ds)
                     [y := Liste ((bs @ [length m]) @ [length ?m2 ..< length ?m2 + length ds])]"
    using Cons.IH [OF p1 p2 p3] same by simp
  also have "\<dots> = (?m1 @ map (?f m) ds)
                     [y := Liste (bs @ [length m ..< length m + length (d # ds)])]"
    using Cons.prems(1) upt by (simp add: m2 len list_update_append)
  finally show ?case by simp
qed

lemma block_lire:
  "lire (m @ Liste (map (\<lambda>i. Suc (length m + i)) [0..<length es]) # map Dictionnaire es)
     (length m) = es"
proof -
  let ?idx = "map (\<lambda>i. Suc (length m + i)) [0..<length es]"
  let ?m1 = "m @ Liste ?idx # map Dictionnaire es"
  have l1: "liste ?m1 (length m) = ?idx" by (simp add: liste_def)
  have "map (dictionnaire ?m1) ?idx = map (\<lambda>i. es ! i) [0..<length es]"
    by (simp add: dictionnaire_def nth_append)
  also have "\<dots> = es" by (rule map_nth)
  finally show ?thesis by (simp add: lire_def l1)
qed

lemma block_ok:
  "solution_ok (m @ Liste (map (\<lambda>i. Suc (length m + i)) [0..<length es]) # map Dictionnaire es)
     (length m)"
proof -
  let ?idx = "map (\<lambda>i. Suc (length m + i)) [0..<length es]"
  let ?m1 = "m @ Liste ?idx # map Dictionnaire es"
  have dist: "distinct ?idx" by (simp add: distinct_map inj_on_def)
  have el: "a < length ?m1 \<and> (\<exists>d. ?m1 ! a = Dictionnaire d)" if "a \<in> set ?idx" for a
    using that by (auto simp: nth_append)
  have "?m1 ! length m = Liste ?idx" by simp
  with dist el show ?thesis
    unfolding solution_ok_def by (intro conjI exI [of _ ?idx]) simp_all
qed

lemma affecter_mem_exact:
  assumes "devices_ok m devices"
  shows "affecter_mem self m devices pc sp sc bc tax =
    (self\<lparr>cout_achat := bc, cout_revente := sc, taxe_revente := tax, consommation_net := pc,
          production_solaire := sp, equipements := length m\<rparr>,
     m @ Liste (map (\<lambda>i. Suc (length m + i)) [0..<length (liste m devices)])
         # map Dictionnaire
             (equipements (affecter (valeur_algo m self) (map (appareil m) (liste m devices))
                             pc sp sc bc tax)))"
proof -
  from assms obtain ds where ds: "devices < length m" "m ! devices = Liste ds"
    "\<forall>d \<in> set ds. d < length m \<and> (\<exists>x. m ! d = Appareil x)"
    by (auto simp: devices_ok_def)
  have l: "liste m devices = ds" using ds(2) by (simp add: liste_def)
  let ?f = "\<lambda>m d. Dictionnaire
                     \<lparr>power_max = dev_power_max (appareil m d), name = dev_name (appareil m d),
                      state = dev_is_active (appareil m d),
                      is_usable = dev_is_usable (appareil m d)\<rparr>"
  let ?m1 = "m @ [Liste []]"
  have same: "map (?f ?m1) ds = map (?f m) ds"
  proof (rule map_cong [OF refl])
    fix d assume "d \<in> set ds"
    with ds(3) have "d < length m" by simp
    then have "?m1 ! d = m ! d" by (simp add: nth_append)
    then have "appareil ?m1 d = appareil m d" by (simp only: appareil_def)
    then show "?f ?m1 d = ?f m d" by simp
  qed
  have "construire ?m1 (length m) ds =
          (?m1 @ map (?f ?m1) ds)[length m := Liste ([] @ [length ?m1 ..< length ?m1 + length ds])]"
    using ds(3) by (intro construire_exact) auto
  also have "\<dots> = m @ Liste [Suc (length m) ..< Suc (length m) + length ds] # map (?f m) ds"
    by (simp add: same list_update_append)
  also have "\<dots> = m @ Liste (map (\<lambda>i. Suc (length m + i)) [0..<length ds]) # map (?f m) ds"
    unfolding upt_shift ..
  finally show ?thesis
    by (simp add: affecter_mem_def allouer_def l affecter_def comp_def)
qed

lemma initialiser_mem_refines:
  assumes ok: "solution_ok m (equipements self)"
  shows "case initialiser_mem self m g of
           (Inl e, m') \<Rightarrow> initialiser (valeur_algo m self) g = Inl e
         | (Inr (self', s0), m') \<Rightarrow>
             initialiser (valeur_algo m self) g = Inr (valeur_algo m' self', valeur_etat m' s0)
             \<and> solution_ok m' (solution_actuelle s0) \<and> solution_ok m' (meilleure_solution s0)"
proof -
  let ?x = "equipements self"
  let ?m1 = "m @ Liste (map (\<lambda>i. Suc (length m + i)) [0..<length (liste m ?x)])
                 # map ((!) m) (liste m ?x)"
  let ?self' = "self\<lparr>puissance_totale_eqt_initiale := consommation_equipements (lire m ?x)\<rparr>"
  have g: "generer_solution_initiale_mem self m ?x = ((length m, ?self'), ?m1)"
    by (simp add: generer_solution_initiale_mem_def deepcopy_shift [OF ok] Let_def)
  have pre: "prefix m ?m1" by simp
  note px = prefix_solution_ok [OF pre ok]
  have c: "lire ?m1 (length m) = lire m ?x" by (rule copy_lire)
  have o: "solution_ok ?m1 (length m)" using ok by (rule copy_solution_ok)
  have a: "valeur_algo ?m1 ?self'
           = (valeur_algo m self)\<lparr>puissance_totale_eqt_initiale :=
                                    consommation_equipements (equipements (valeur_algo m self))\<rparr>"
    by (simp add: valeur_algo_def px(2))
  have e: "equipements (valeur_algo m self) = lire m ?x" by (simp add: valeur_algo_def)
  have t: "temperature_initiale (valeur_algo ?m1 ?self') = temperature_initiale self"
    by (simp add: valeur_algo_def)
  have co: "calculer_objectif (valeur_algo ?m1 ?self') sol = calculer_objectif ?self' sol" for sol
    by (rule calculer_objectif_valeur_algo)
  show ?thesis
  proof (cases "calculer_objectif ?self' (lire m ?x)")
    case (Inl err)
    then show ?thesis
      using co [of "lire m ?x"]
      by (simp add: initialiser_mem_def initialiser_def generer_solution_initiale_def g c a e)
  next
    case (Inr objectif)
    then show ?thesis
      using co [of "lire m ?x"] o t
      by (simp add: initialiser_mem_def initialiser_def generer_solution_initiale_def g c a e
            valeur_etat_def)
  qed
qed

text \<open>
  A call on the store and the call on the values that the store holds give the same
  outcome: the same exception, or the same objective and power and a reference to the
  returned solution.
\<close>

lemma recuit_simule_mem_refines:
  assumes ok: "devices_ok m devices"
  shows "case recuit_simule_mem self g m devices pc sp sc bc tax of
           (Inl e, m') \<Rightarrow>
             recuit_simule (valeur_algo m self) g (map (appareil m) (liste m devices))
               pc sp sc bc tax = Inl e
         | (Inr (best, bo, p), m') \<Rightarrow>
             recuit_simule (valeur_algo m self) g (map (appareil m) (liste m devices))
               pc sp sc bc tax = Inr (lire m' best, bo, p)"
proof (cases "length (liste m devices) \<le> 0 \<or> pc = None \<or> sp = None \<or> sc = None
               \<or> bc = None \<or> tax = None")
  case True
  have "lire (m @ [Liste []]) (length m) = []" by (simp add: lire_def liste_def)
  with True show ?thesis
    by (auto simp: recuit_simule_mem_def recuit_simule_def allouer_def)
next
  case False
  let ?devs = "map (appareil m) (liste m devices)"
  let ?a = "affecter (valeur_algo m self) ?devs (the pc) (the sp) (the sc) (the bc) (the tax)"
  let ?m1 = "m @ Liste (map (\<lambda>i. Suc (length m + i)) [0..<length (liste m devices)])
                 # map Dictionnaire (equipements ?a)"
  let ?self1 = "self\<lparr>cout_achat := the bc, cout_revente := the sc, taxe_revente := the tax,
                     consommation_net := the pc, production_solaire := the sp,
                     equipements := length m\<rparr>"
  have am: "affecter_mem self m devices (the pc) (the sp) (the sc) (the bc) (the tax)
              = (?self1, ?m1)"
    by (rule affecter_mem_exact [OF ok])
  have len: "length (equipements ?a) = length (liste m devices)"
    by (simp add: affecter_def)
  have l1: "lire ?m1 (length m) = equipements ?a"
    using block_lire [of m "equipements ?a"] unfolding len .
  have o1: "solution_ok ?m1 (equipements ?self1)"
    using block_ok [of m "equipements ?a"] unfolding len by simp
  have a1: "valeur_algo ?m1 ?self1 = ?a"
    using l1 by (simp add: valeur_algo_def affecter_def)
  have vs: "recuit_simule (valeur_algo m self) g ?devs pc sp sc bc tax =
      (case initialiser ?a g of
         Inl e \<Rightarrow> Inl e
       | Inr (self', s0) \<Rightarrow>
           (case boucle self' (nat (nombre_iterations self')) s0 of
              Inl e \<Rightarrow> Inl e
            | Inr s \<Rightarrow> Inr (meilleure_solution s, meilleure_objectif s,
                            consommation_equipements (meilleure_solution s))))"
    using False by (auto simp: recuit_simule_def)
  have ms: "recuit_simule_mem self g m devices pc sp sc bc tax =
      (case initialiser_mem ?self1 ?m1 g of
         (Inl e, m2) \<Rightarrow> (Inl e, m2)
       | (Inr (self', s0), m2) \<Rightarrow>
           (case boucle_mem self' (nat (nombre_iterations self')) m2 s0 of
              (Inl e, m3) \<Rightarrow> (Inl e, m3)
            | (Inr s, m3) \<Rightarrow>
                (Inr (meilleure_solution s, meilleure_objectif s,
                      consommation_equipements (lire m3 (meilleure_solution s))), m3)))"
    using False am by (auto simp: recuit_simule_mem_def)
  obtain r2 m2 where i: "initialiser_mem ?self1 ?m1 g = (r2, m2)"
    by (cases "initialiser_mem ?self1 ?m1 g")
  note ri = initialiser_mem_refines [OF o1, of g, unfolded i a1]
  show ?thesis
  proof (cases r2)
    case (Inl e)
    with ri i show ?thesis by (simp add: vs ms)
  next
    case (Inr c)
    obtain self' s0 where c: "c = (self', s0)" by (cases c)
    from ri Inr c have iv: "initialiser ?a g = Inr (valeur_algo m2 self', valeur_etat m2 s0)"
      and o2: "solution_ok m2 (solution_actuelle s0)" "solution_ok m2 (meilleure_solution s0)"
      by simp_all
    have n: "nombre_iterations (valeur_algo m2 self') = nombre_iterations self'"
      by (simp add: valeur_algo_def)
    obtain r3 m3 where b: "boucle_mem self' (nat (nombre_iterations self')) m2 s0 = (r3, m3)"
      by (cases "boucle_mem self' (nat (nombre_iterations self')) m2 s0")
    note rb = boucle_mem_refines [OF o2, where self = self' and ?m0.0 = m2
        and n = "nat (nombre_iterations self')", unfolded b]
    show ?thesis
    proof (cases r3)
      case (Inl e)
      with rb i Inr c iv b show ?thesis by (simp add: vs ms n)
    next
      case r: (Inr s)
      with rb have "boucle (valeur_algo m2 self') (nat (nombre_iterations self'))
                      (valeur_etat m2 s0) = Inr (valeur_etat m3 s)" by simp
      with i Inr c iv b r show ?thesis by (simp add: vs ms n valeur_etat_def)
    qed
  qed
qed

end
